theory Spec2Isabelle
  imports Main "HOL-Library.Char_ord" "HOL-Library.List_Lexorder" "HOL-Library.Sublist"
begin

section \<open>Python strings\<close>

text \<open>
  A Python \<open>str\<close> read from a file name or a model response is a \<open>string\<close> whose
  characters stand for the code points 0 to 255; text with code points above 255 is outside
  the model. On this range \<open>str.isspace\<close>, \<open>str.strip\<close> and \<open>str.lower\<close> are
  as defined below. Strings inside parsed JSON values are lists of code points (\<open>nat\<close>),
  since a \<open>\uXXXX\<close> escape can denote any code point.
\<close>

type_synonym ustr = "nat list"

definition ustr :: "string \<Rightarrow> ustr" where
  "ustr s = map of_char s"

definition dquote :: char where
  "dquote = CHR 0x22"

definition backslash :: char where
  "backslash = CHR 0x5C"

definition py_isspace :: "char \<Rightarrow> bool" where
  "py_isspace c =
     (let n = (of_char c :: nat)
      in (9 \<le> n \<and> n \<le> 13) \<or> (28 \<le> n \<and> n \<le> 32) \<or> n = 133 \<or> n = 160)"

definition strip :: "string \<Rightarrow> string" where
  "strip s = rev (dropWhile py_isspace (rev (dropWhile py_isspace s)))"

definition startswith :: "string \<Rightarrow> string \<Rightarrow> bool" where
  "startswith s p = (take (length p) s = p)"

definition endswith :: "string \<Rightarrow> string \<Rightarrow> bool" where
  "endswith s p = (length p \<le> length s \<and> drop (length s - length p) s = p)"

definition removeprefix :: "string \<Rightarrow> string \<Rightarrow> string" where
  "removeprefix s p = (if startswith s p then drop (length p) s else s)"

definition removesuffix :: "string \<Rightarrow> string \<Rightarrow> string" where
  "removesuffix s p =
     (if p \<noteq> [] \<and> endswith s p then take (length s - length p) s else s)"

definition py_lower_char :: "char \<Rightarrow> char" where
  "py_lower_char c =
     (let n = (of_char c :: nat)
      in if (65 \<le> n \<and> n \<le> 90) \<or> (192 \<le> n \<and> n \<le> 222 \<and> n \<noteq> 215)
         then char_of (n + 32) else c)"

definition lower :: "string \<Rightarrow> string" where
  "lower s = map py_lower_char s"

text \<open>
  \<open>os.path.splitext\<close> (posixpath): the extension starts at the last dot of the last
  path component, unless that component has only dots before it.
\<close>

definition rfind :: "char \<Rightarrow> string \<Rightarrow> nat option" where
  "rfind c p =
     (if c \<in> set p then Some (length p - 1 - length (takeWhile (\<lambda>x. x \<noteq> c) (rev p)))
      else None)"

definition splitext :: "string \<Rightarrow> string \<times> string" where
  "splitext p =
     (let filenameIndex = (case rfind (CHR ''/'') p of None \<Rightarrow> 0 | Some i \<Rightarrow> i + 1)
      in case rfind (CHR ''.'') p of
           None \<Rightarrow> (p, [])
         | Some dotIndex \<Rightarrow>
             if filenameIndex \<le> dotIndex \<and>
                list_ex (\<lambda>x. x \<noteq> CHR ''.'')
                  (take (dotIndex - filenameIndex) (drop filenameIndex p))
             then (take dotIndex p, drop dotIndex p)
             else (p, []))"

text \<open>\<open>os.path.join\<close> (posixpath) of two components.\<close>

definition path_join :: "string \<Rightarrow> string \<Rightarrow> string" where
  "path_join a b =
     (if startswith b ''/'' \<or> a = [] then b
      else if endswith a ''/'' then a @ b
      else a @ ''/'' @ b)"

section \<open>JSON values and \<open>json.loads\<close>\<close>

text \<open>
  The values \<open>json.loads\<close> builds. A float is kept as the text Python passes to
  \<open>float\<close> (including the constants \<open>NaN\<close>, \<open>Infinity\<close> and \<open>-Infinity\<close>); a
  \<open>dict\<close> is the list of its items in insertion order, with distinct keys.
\<close>

datatype json =
    JNull
  | JBool bool
  | JInt int
  | JFloat string
  | JString ustr
  | JArray "json list"
  | JObject "(ustr \<times> json) list"

fun dict_set :: "'k \<Rightarrow> 'v \<Rightarrow> ('k \<times> 'v) list \<Rightarrow> ('k \<times> 'v) list" where
  "dict_set k v [] = [(k, v)]"
| "dict_set k v (p # ps) = (if fst p = k then (k, v) # ps else p # dict_set k v ps)"

definition dict :: "('k \<times> 'v) list \<Rightarrow> ('k \<times> 'v) list" where
  "dict pairs = foldl (\<lambda>d kv. dict_set (fst kv) (snd kv) d) [] pairs"

definition json_ws :: "char \<Rightarrow> bool" where
  "json_ws c = (c = CHR '' '' \<or> c = CHR 0x09 \<or> c = CHR 0x0A \<or> c = CHR 0x0D)"

definition skip_ws :: "string \<Rightarrow> string" where
  "skip_ws s = dropWhile json_ws s"

definition is_digit :: "char \<Rightarrow> bool" where
  "is_digit c = (CHR ''0'' \<le> c \<and> c \<le> CHR ''9'')"

definition hexval :: "char \<Rightarrow> nat option" where
  "hexval c =
     (let n = (of_char c :: nat)
      in if 48 \<le> n \<and> n \<le> 57 then Some (n - 48)
         else if 65 \<le> n \<and> n \<le> 70 then Some (n - 55)
         else if 97 \<le> n \<and> n \<le> 102 then Some (n - 87)
         else None)"

text \<open>\<open>_decode_uXXXX\<close>: exactly four hexadecimal digits, or the escape is invalid.\<close>

definition decode_uXXXX :: "string \<Rightarrow> nat option" where
  "decode_uXXXX s =
     (case map hexval (take 4 s) of
        [Some a, Some b, Some c, Some d] \<Rightarrow> Some (((a * 16 + b) * 16 + c) * 16 + d)
      | _ \<Rightarrow> None)"

definition BACKSLASH :: "char \<Rightarrow> nat option" where
  "BACKSLASH esc =
     (if esc = dquote then Some 0x22
      else if esc = backslash then Some 0x5C
      else if esc = CHR ''/'' then Some 0x2F
      else if esc = CHR ''b'' then Some 0x08
      else if esc = CHR ''f'' then Some 0x0C
      else if esc = CHR ''n'' then Some 0x0A
      else if esc = CHR ''r'' then Some 0x0D
      else if esc = CHR ''t'' then Some 0x09
      else None)"

definition prepend :: "nat \<Rightarrow> (ustr \<times> string) option \<Rightarrow> (ustr \<times> string) option" where
  "prepend u r = (case r of None \<Rightarrow> None | Some (cs, rest) \<Rightarrow> Some (u # cs, rest))"

text \<open>
  \<open>py_scanstring\<close> in strict mode, started after the opening quote: the decoded string
  and the text after the closing quote, or \<open>None\<close> where Python raises
  \<open>JSONDecodeError\<close> (unterminated string, control character, invalid escape).
\<close>

function py_scanstring :: "string \<Rightarrow> (ustr \<times> string) option" where
  "py_scanstring [] = None"
| "py_scanstring (c # cs) =
     (if c = dquote then Some ([], cs)
      else if c = backslash then
        (case cs of
           [] \<Rightarrow> None
         | esc # r \<Rightarrow>
             if esc = CHR ''u'' then
               (case decode_uXXXX r of
                  None \<Rightarrow> None
                | Some uni \<Rightarrow>
                    if 0xD800 \<le> uni \<and> uni \<le> 0xDBFF \<and> take 2 (drop 4 r) = [backslash, CHR ''u'']
                    then (case decode_uXXXX (drop 6 r) of
                            None \<Rightarrow> None
                          | Some uni2 \<Rightarrow>
                              if 0xDC00 \<le> uni2 \<and> uni2 \<le> 0xDFFF
                              then prepend (0x10000 + ((uni - 0xD800) * 1024 + (uni2 - 0xDC00)))
                                     (py_scanstring (drop 10 r))
                              else prepend uni (py_scanstring (drop 4 r)))
                    else prepend uni (py_scanstring (drop 4 r)))
             else (case BACKSLASH esc of
                     None \<Rightarrow> None
                   | Some ch \<Rightarrow> prepend ch (py_scanstring r)))
      else if (of_char c :: nat) < 0x20 then None
      else prepend (of_char c) (py_scanstring cs))"
  by pat_completeness auto
termination
  by (relation "measure length") auto

text \<open>
  \<open>NUMBER_RE\<close>, \<open>(-?(?:0|[1-9][0-9]*))(\.[0-9]+)?([eE][-+]?[0-9]+)?\<close>, matched at the
  start of the text: the three groups (an unmatched group is empty) and the text after
  the match.
\<close>

definition match_digits :: "string \<Rightarrow> (string \<times> string) option" where
  "match_digits s =
     (case s of
        [] \<Rightarrow> None
      | d # r \<Rightarrow>
          if d = CHR ''0'' then Some ([d], r)
          else if is_digit d then Some (d # takeWhile is_digit r, dropWhile is_digit r)
          else None)"

definition match_integer :: "string \<Rightarrow> (string \<times> string) option" where
  "match_integer s =
     (case s of
        [] \<Rightarrow> None
      | c # r \<Rightarrow>
          if c = CHR ''-'' then
            (case match_digits r of
               None \<Rightarrow> None
             | Some (ds, rest) \<Rightarrow> Some (c # ds, rest))
          else match_digits s)"

definition match_frac :: "string \<Rightarrow> string \<times> string" where
  "match_frac s =
     (case s of
        [] \<Rightarrow> ([], s)
      | c # r \<Rightarrow>
          if c = CHR ''.'' \<and> takeWhile is_digit r \<noteq> []
          then (c # takeWhile is_digit r, dropWhile is_digit r)
          else ([], s))"

definition match_exp :: "string \<Rightarrow> string \<times> string" where
  "match_exp s =
     (case s of
        [] \<Rightarrow> ([], s)
      | c # r \<Rightarrow>
          if c = CHR ''e'' \<or> c = CHR ''E'' then
            (case r of
               [] \<Rightarrow> ([], s)
             | sign # r1 \<Rightarrow>
                 if (sign = CHR ''-'' \<or> sign = CHR ''+'') \<and> takeWhile is_digit r1 \<noteq> []
                 then (c # sign # takeWhile is_digit r1, dropWhile is_digit r1)
                 else if takeWhile is_digit r \<noteq> []
                 then (c # takeWhile is_digit r, dropWhile is_digit r)
                 else ([], s))
          else ([], s))"

definition match_number :: "string \<Rightarrow> (string \<times> string \<times> string \<times> string) option" where
  "match_number s =
     (case match_integer s of
        None \<Rightarrow> None
      | Some (integer, s1) \<Rightarrow>
          (let (frac, s2) = match_frac s1;
               (exp, s3) = match_exp s2
           in Some (integer, frac, exp, s3)))"

definition digit_val :: "char \<Rightarrow> int" where
  "digit_val c = int (of_char c) - 48"

definition parse_int :: "string \<Rightarrow> int" where
  "parse_int s =
     (if take 1 s = ''-'' then - foldl (\<lambda>a c. 10 * a + digit_val c) 0 (drop 1 s)
      else foldl (\<lambda>a c. 10 * a + digit_val c) 0 s)"

datatype 'a outcome = Done 'a | Failed | Exhausted

text \<open>
  The branches of \<open>scan_once\<close> that do not call the scanner again: \<open>null\<close>,
  \<open>true\<close>, \<open>false\<close>, a number, \<open>NaN\<close>, \<open>Infinity\<close>, \<open>-Infinity\<close>.
\<close>

definition scan_literal :: "string \<Rightarrow> (json \<times> string) outcome" where
  "scan_literal s =
     (if take 4 s = ''null'' then Done (JNull, drop 4 s)
      else if take 4 s = ''true'' then Done (JBool True, drop 4 s)
      else if take 5 s = ''false'' then Done (JBool False, drop 5 s)
      else
        (case match_number s of
           Some (integer, frac, exp, rest) \<Rightarrow>
             if frac = [] \<and> exp = [] then Done (JInt (parse_int integer), rest)
             else Done (JFloat (integer @ frac @ exp), rest)
         | None \<Rightarrow>
             if take 3 s = ''NaN'' then Done (JFloat ''NaN'', drop 3 s)
             else if take 8 s = ''Infinity'' then Done (JFloat ''Infinity'', drop 8 s)
             else if take 9 s = ''-Infinity'' then Done (JFloat ''-Infinity'', drop 9 s)
             else Failed))"

text \<open>
  The scanner (\<open>scan_once\<close>, \<open>JSONObject\<close>, \<open>JSONArray\<close>) calls itself on the rest of
  the text. The first argument bounds the number of nested calls; \<open>Exhausted\<close> is the
  result when the bound is reached, \<open>Failed\<close> is a \<open>JSONDecodeError\<close>. Every call
  is on a shorter text, so a bound above twice the length of the text is never reached
  (lemma \<open>decode_not_Exhausted\<close>), and \<open>strict_parse\<close> starts with such a bound.
\<close>

fun scan_once :: "nat \<Rightarrow> string \<Rightarrow> (json \<times> string) outcome"
  and JSONObject :: "nat \<Rightarrow> string \<Rightarrow> (ustr \<times> json) list \<Rightarrow> (json \<times> string) outcome"
  and JSONArray :: "nat \<Rightarrow> string \<Rightarrow> json list \<Rightarrow> (json \<times> string) outcome"
where
  "scan_once 0 s = Exhausted"
| "scan_once (Suc n) s =
     (case s of
        [] \<Rightarrow> Failed
      | nextchar # r \<Rightarrow>
          if nextchar = dquote then
            (case py_scanstring r of
               None \<Rightarrow> Failed
             | Some (str, rest) \<Rightarrow> Done (JString str, rest))
          else if nextchar = CHR ''{'' then
            (case skip_ws r of
               [] \<Rightarrow> Failed
             | c # r1 \<Rightarrow>
                 if c = CHR ''}'' then Done (JObject [], r1)
                 else if c = dquote then JSONObject n r1 []
                 else Failed)
          else if nextchar = CHR ''['' then
            (case skip_ws r of
               [] \<Rightarrow> Failed
             | c # r1 \<Rightarrow>
                 if c = CHR '']'' then Done (JArray [], r1)
                 else JSONArray n (c # r1) [])
          else scan_literal s)"
| "JSONObject 0 s pairs = Exhausted"
| "JSONObject (Suc n) s pairs =
     (case py_scanstring s of
        None \<Rightarrow> Failed
      | Some (key, s1) \<Rightarrow>
          (case skip_ws s1 of
             [] \<Rightarrow> Failed
           | colon # s2 \<Rightarrow>
               if colon \<noteq> CHR '':'' then Failed
               else
                 (case scan_once n (skip_ws s2) of
                    Failed \<Rightarrow> Failed
                  | Exhausted \<Rightarrow> Exhausted
                  | Done (val, s3) \<Rightarrow>
                      (case skip_ws s3 of
                         [] \<Rightarrow> Failed
                       | nextchar # s4 \<Rightarrow>
                           if nextchar = CHR ''}'' then
                             Done (JObject (dict (pairs @ [(key, val)])), s4)
                           else if nextchar = CHR '','' then
                             (case skip_ws s4 of
                                [] \<Rightarrow> Failed
                              | q # s5 \<Rightarrow>
                                  if q = dquote then JSONObject n s5 (pairs @ [(key, val)])
                                  else Failed)
                           else Failed))))"
| "JSONArray 0 s vals = Exhausted"
| "JSONArray (Suc n) s vals =
     (case scan_once n s of
        Failed \<Rightarrow> Failed
      | Exhausted \<Rightarrow> Exhausted
      | Done (val, s1) \<Rightarrow>
          (case skip_ws s1 of
             [] \<Rightarrow> Failed
           | nextchar # s2 \<Rightarrow>
               if nextchar = CHR '']'' then Done (JArray (vals @ [val]), s2)
               else if nextchar = CHR '','' then JSONArray n (skip_ws s2) (vals @ [val])
               else Failed))"

text \<open>
  \<open>JSONDecoder.decode\<close>: skip white space, scan one value, skip white space, and fail
  on extra data.
\<close>

definition decode :: "nat \<Rightarrow> string \<Rightarrow> json outcome" where
  "decode n s =
     (case scan_once n (skip_ws s) of
        Failed \<Rightarrow> Failed
      | Exhausted \<Rightarrow> Exhausted
      | Done (obj, rest) \<Rightarrow> if skip_ws rest = [] then Done obj else Failed)"

text \<open>
  The value the decoder gives to a text by the grammar alone: \<open>None\<close> where the text is
  not one JSON value with white space around it.
\<close>

definition strict_parse :: "string \<Rightarrow> json option" where
  "strict_parse s =
     (case decode (2 * length s + 1) s of
        Done obj \<Rightarrow> Some obj
      | _ \<Rightarrow> None)"

text \<open>
  The exceptions the scripts can meet. \<open>json.loads\<close> raises \<open>JSONDecodeError\<close> on a
  text that is not JSON, and it can end with another exception on a text that is: CPython
  raises \<open>ValueError\<close> on an integer literal of more than
  \<open>sys.get_int_max_str_digits()\<close> digits (4300 unless configured otherwise), and
  \<open>RecursionError\<close> when the nesting of arrays and objects uses up the recursion limit,
  which can also happen while the decoder builds its \<open>JSONDecodeError\<close>. Neither is a
  \<open>JSONDecodeError\<close>. The encoder behind \<open>json.dump\<close> and \<open>json.dumps\<close> recurses
  on nested values in the same way.
\<close>

datatype exn =
    JSONDecodeError
  | ValueError
  | RecursionError
  | AttributeError
  | TypeError
  | OSError
  | ApiError string

text \<open>
  Where these limits lie depends on the interpreter: its version, its settings, and the
  depth of the call stack at the call. So the interpreter is a parameter of the scripts:
  \<open>limit_error s\<close> is the exception with which \<open>json.loads(s)\<close> ends because of such a
  limit (\<open>None\<close> when it reaches none), and \<open>dump_error v\<close> is the exception with which
  \<open>json.dump(v, f, indent=2)\<close> or \<open>json.dumps(v, indent=2)\<close> ends (\<open>None\<close> when it
  returns).
\<close>

record interpreter =
  limit_error :: "string \<Rightarrow> exn option"
  dump_error :: "json \<Rightarrow> exn option"

text \<open>
  \<open>json.loads\<close> on a \<open>str\<close>: the exception raised (\<open>Inl\<close>) or the value returned.
  Where the interpreter reaches no limit, the text is parsed by the grammar.
\<close>

definition json_loads :: "interpreter \<Rightarrow> string \<Rightarrow> exn + json" where
  "json_loads py s =
     (case limit_error py s of
        Some e \<Rightarrow> Inl e
      | None \<Rightarrow>
          (case strict_parse s of
             Some obj \<Rightarrow> Inr obj
           | None \<Rightarrow> Inl JSONDecodeError))"

text \<open>
  Truth value of a parsed value (\<open>if x:\<close>, \<open>not x\<close>). \<open>float\<close> rounds to
  nearest, ties to even, so the text \<open>m * 10^e\<close> denotes zero exactly when \<open>m = 0\<close> or
  \<open>m * 10^e \<le> 2^-1075\<close>.
\<close>

definition parse_nat :: "string \<Rightarrow> int" where
  "parse_nat s = foldl (\<lambda>a c. 10 * a + digit_val c) 0 s"

definition float_is_zero :: "string \<Rightarrow> bool" where
  "float_is_zero s =
     (if s = ''NaN'' \<or> s = ''Infinity'' \<or> s = ''-Infinity'' then False
      else
        (let body = (if take 1 s = ''-'' then drop 1 s else s);
             mant = takeWhile (\<lambda>c. c \<noteq> CHR ''e'' \<and> c \<noteq> CHR ''E'') body;
             expo = drop (length mant + 1) body;
             ipart = takeWhile is_digit mant;
             fpart = drop (length ipart + 1) mant;
             m = parse_nat (ipart @ fpart);
             e = (if take 1 expo = ''-'' then - parse_nat (drop 1 expo)
                  else if take 1 expo = ''+'' then parse_nat (drop 1 expo)
                  else parse_nat expo) - int (length fpart)
         in m = 0 \<or> (e < 0 \<and> m * 2 ^ 1075 \<le> 10 ^ nat (- e))))"

fun py_truthy :: "json \<Rightarrow> bool" where
  "py_truthy JNull = False"
| "py_truthy (JBool b) = b"
| "py_truthy (JInt i) = (i \<noteq> 0)"
| "py_truthy (JFloat s) = (\<not> float_is_zero s)"
| "py_truthy (JString s) = (s \<noteq> [])"
| "py_truthy (JArray xs) = (xs \<noteq> [])"
| "py_truthy (JObject ps) = (ps \<noteq> [])"

text \<open>\<open>d.get(k, default)\<close> on a \<open>dict\<close>.\<close>

definition dict_get :: "('k \<times> 'v) list \<Rightarrow> 'k \<Rightarrow> 'v \<Rightarrow> 'v" where
  "dict_get d k dflt = (case map_of d k of None \<Rightarrow> dflt | Some v \<Rightarrow> v)"

section \<open>extractor.py\<close>

definition FILE_HINTS :: "(string \<times> string) list" where
  "FILE_HINTS =
     [(''.pdf'', ''The following file is an invoice in PDF format.''),
      (''.png'', ''The following file is a scanned image of an invoice.''),
      (''.jpg'', ''The following file is a scanned image of an invoice.''),
      (''.jpeg'', ''The following file is a scanned image of an invoice.''),
      (''.xlsx'', ''The following file is an invoice spreadsheet (.xlsx format).''),
      (''.csv'', ''The following file is an invoice in CSV format.'')]"

definition BASE_PROMPT :: string where
  \<open>BASE_PROMPT =
     ''\<newline>'' @
     ''The JSON structure shown below is the desired output format. \<newline>'' @
     ''Extract the information and return it in this exact JSON format. \<newline>'' @
     ''The extracted data should include client details, seller information, invoice metadata, itemized product details, and payment instructions.\<newline>'' @
     ''\<newline>'' @
     ''Output only the JSON. Do not include explanations or formatting.\<newline>'' @
     ''\<newline>'' @
     ''{\<newline>'' @
     ''  "invoice": {\<newline>'' @
     ''    "client_name": "",\<newline>'' @
     ''    "client_address": "",\<newline>'' @
     ''    "seller_name": "",\<newline>'' @
     ''    "seller_address": "",\<newline>'' @
     ''    "invoice_number": "",\<newline>'' @
     ''    "invoice_date": "",\<newline>'' @
     ''    "due_date": ""\<newline>'' @
     ''  },\<newline>'' @
     ''  "items": [\<newline>'' @
     ''    {\<newline>'' @
     ''      "description": "",\<newline>'' @
     ''      "quantity": "",\<newline>'' @
     ''      "total_price": ""\<newline>'' @
     ''    }\<newline>'' @
     ''  ],\<newline>'' @
     ''  "subtotal": {\<newline>'' @
     ''    "tax": "",\<newline>'' @
     ''    "discount": "",\<newline>'' @
     ''    "total": ""\<newline>'' @
     ''  },\<newline>'' @
     ''  "payment_instructions": {\<newline>'' @
     ''    "due_date": "",\<newline>'' @
     ''    "bank_name": "",\<newline>'' @
     ''    "account_number": "",\<newline>'' @
     ''    "payment_method": ""\<newline>'' @
     ''  }\<newline>'' @
     ''}\<newline>''\<close>

text \<open>The lines the script prints; the text of a caught exception is left out.\<close>

datatype message =
    Msg_still_failed_to_decode
  | Msg_no_valid_json_block
  | Msg_error_converting string
  | Msg_api_error string
  | Msg_extracting_from string
  | Msg_saved_json string
  | Msg_extraction_failed string

text \<open>
  \<open>re.search(r'\{.*\}', text, re.DOTALL)\<close>: the start positions are tried from left to
  right; at a \<open>{\<close> the greedy \<open>.*\<close> takes the rest of the text and gives characters
  back until a \<open>}\<close> follows.
\<close>

definition greedy_to_brace :: "string \<Rightarrow> string option" where
  "greedy_to_brace cs =
     (let r = dropWhile (\<lambda>c. c \<noteq> CHR ''}'') (rev cs)
      in if r = [] then None else Some (rev r))"

fun re_search :: "string \<Rightarrow> string option" where
  "re_search [] = None"
| "re_search (c # cs) =
     (if c = CHR ''{'' then
        (case greedy_to_brace cs of
           Some m \<Rightarrow> Some (c # m)
         | None \<Rightarrow> re_search cs)
      else re_search cs)"

text \<open>
  \<open>extract_json\<close>: the lines printed and the value returned, or the exception that
  leaves the function. Its \<open>except\<close> clause names \<open>json.JSONDecodeError\<close> only.
\<close>

definition extract_json :: "interpreter \<Rightarrow> string \<Rightarrow> exn + (message list \<times> json option)" where
  "extract_json py text =
     (case re_search text of
        Some matched \<Rightarrow>
          (case json_loads py matched of
             Inr obj \<Rightarrow> Inr ([], Some obj)
           | Inl e \<Rightarrow>
               if e = JSONDecodeError then Inr ([Msg_still_failed_to_decode], None)
               else Inl e)
      | None \<Rightarrow> Inr ([Msg_no_valid_json_block], None))"

text \<open>
  A file: its content when it can be opened and read, \<open>Unreadable\<close> when \<open>open\<close>
  raises \<open>OSError\<close> on it (a file without read permission). The data sent to the
  model is the bytes of the file or the UTF-8 encoding of the converted spreadsheet.
\<close>

datatype file_obj = Readable string | Unreadable

datatype payload = Bytes string | Utf8 string

record request =
  prompt :: string
  mime_type :: "string option"
  data :: payload

text \<open>
  What the script calls and does not define: \<open>read_excel_to_csv\<close> is
  \<open>pd.read_excel(path, engine='openpyxl').to_csv(index=False)\<close> (\<open>None\<close> when it
  raises), \<open>guess_type\<close> is \<open>mimetypes.guess_type(path)[0]\<close>, \<open>generate_content\<close> is
  \<open>model.generate_content([prompt, {...}]).text\<close> for the file at the given path
  (\<open>None\<close> when the call or the \<open>.text\<close> access raises), \<open>listdir\<close> and
  \<open>isdir\<close> are the directory listings when the run starts, and
  \<open>extractor_python\<close> is the interpreter that runs the script.
\<close>

record extractor_env =
  read_excel_to_csv :: "file_obj option \<Rightarrow> string option"
  guess_type :: "string \<Rightarrow> string option"
  generate_content :: "string \<Rightarrow> request \<Rightarrow> string option"
  listdir :: "string \<Rightarrow> string list"
  isdir :: "string \<Rightarrow> bool"
  extractor_python :: interpreter

text \<open>
  The state of a run: the three directories as maps from a path to the file there, the
  lines printed, and the requests sent to the model. The seller folders, the output
  directory and the error directory hold files only, no directories. Creating a file in
  \<open>gemini_output\<close> and renaming an existing file into \<open>error_invoices\<close> succeed
  (\<open>os.makedirs\<close> has made both directories), replacing a file already there.
\<close>

record extractor_state =
  sorted_invoices :: "string \<rightharpoonup> file_obj"
  gemini_output :: "string \<rightharpoonup> json"
  error_invoices :: "string \<rightharpoonup> file_obj"
  stdout :: "message list"
  requests :: "request list"

definition print :: "message list \<Rightarrow> extractor_state \<Rightarrow> extractor_state" where
  "print ms st = st\<lparr>stdout := stdout st @ ms\<rparr>"

definition convert_xlsx_to_csv ::
  "extractor_env \<Rightarrow> string \<Rightarrow> extractor_state \<Rightarrow> string option \<times> extractor_state" where
  "convert_xlsx_to_csv env xlsx_path st =
     (case read_excel_to_csv env (sorted_invoices st xlsx_path) of
        Some csv_string \<Rightarrow> (Some csv_string, st)
      | None \<Rightarrow> (None, print [Msg_error_converting xlsx_path] st))"

definition format_hint :: "string \<Rightarrow> string" where
  "format_hint ext = dict_get FILE_HINTS ext ''The following file is an invoice document.''"

definition final_prompt :: "string \<Rightarrow> string" where
  "final_prompt ext = format_hint ext @ ''\<newline>\<newline>'' @ BASE_PROMPT"

text \<open>
  Lines 102 to 113 of \<open>extract_invoice\<close>: build the prompt, call the model, recover.
  The \<open>except Exception\<close> of line 111 also catches what \<open>extract_json\<close> lets through.
\<close>

definition ask_model ::
  "extractor_env \<Rightarrow> string \<Rightarrow> string \<Rightarrow> string option \<Rightarrow> payload \<Rightarrow> extractor_state
     \<Rightarrow> json option \<times> extractor_state" where
  "ask_model env file_path ext mime file_data st =
     (let req = \<lparr>prompt = final_prompt ext, mime_type = mime, data = file_data\<rparr>;
          st1 = st\<lparr>requests := requests st @ [req]\<rparr>
      in case generate_content env file_path req of
           None \<Rightarrow> (None, print [Msg_api_error file_path] st1)
         | Some text \<Rightarrow>
             (case extract_json (extractor_python env) text of
                Inl e \<Rightarrow> (None, print [Msg_api_error file_path] st1)
              | Inr (ms, r) \<Rightarrow> (r, print ms st1)))"

definition extract_invoice ::
  "extractor_env \<Rightarrow> string \<Rightarrow> extractor_state \<Rightarrow> exn + (json option \<times> extractor_state)" where
  "extract_invoice env file_path st =
     (let ext = lower (snd (splitext file_path))
      in if ext = ''.xlsx'' then
           (case convert_xlsx_to_csv env file_path st of
              (None, st1) \<Rightarrow> Inr (None, st1)
            | (Some csv_data, st1) \<Rightarrow>
                if csv_data = [] then Inr (None, st1)
                else Inr (ask_model env file_path ''.csv'' (Some ''text/csv'') (Utf8 csv_data) st1))
         else
           (case sorted_invoices st file_path of
              Some (Readable file_data) \<Rightarrow>
                Inr (ask_model env file_path ext (guess_type env file_path) (Bytes file_data) st)
            | _ \<Rightarrow> Inl OSError))"

text \<open>\<open>shutil.move(src, dst)\<close> from \<open>sorted_invoices\<close> into \<open>error_invoices\<close>.\<close>

definition shutil_move :: "string \<Rightarrow> string \<Rightarrow> extractor_state \<Rightarrow> exn + extractor_state" where
  "shutil_move src dst st =
     (case sorted_invoices st src of
        None \<Rightarrow> Inl OSError
      | Some f \<Rightarrow>
          Inr (st\<lparr>sorted_invoices := (sorted_invoices st)(src := None),
                  error_invoices := (error_invoices st)(dst \<mapsto> f)\<rparr>))"

definition truthy :: "json option \<Rightarrow> bool" where
  "truthy v = (case v of None \<Rightarrow> False | Some x \<Rightarrow> py_truthy x)"

text \<open>
  The body of the inner loop of \<open>run_extractor\<close>, lines 128 to 141. An exception of
  \<open>json.dump\<close> is not caught and ends the run.
\<close>

definition process_file ::
  "extractor_env \<Rightarrow> string \<Rightarrow> string \<Rightarrow> extractor_state \<Rightarrow> exn + extractor_state" where
  "process_file env folder_path file st =
     (let file_path = path_join folder_path file;
          st1 = print [Msg_extracting_from file] st
      in case extract_invoice env file_path st1 of
           Inl e \<Rightarrow> Inl e
         | Inr (json_data, st2) \<Rightarrow>
             (let json_name = fst (splitext file) @ ''.json'';
                  output_path = path_join ''gemini_output'' json_name
              in if truthy json_data then
                   (case dump_error (extractor_python env) (the json_data) of
                      Some e \<Rightarrow> Inl e
                    | None \<Rightarrow>
                        Inr (print [Msg_saved_json json_name]
                               (st2\<lparr>gemini_output :=
                                  (gemini_output st2)(output_path := json_data)\<rparr>)))
                 else
                   shutil_move file_path (path_join ''error_invoices'' file)
                     (print [Msg_extraction_failed file] st2)))"

fun process_folder ::
  "extractor_env \<Rightarrow> string \<Rightarrow> string list \<Rightarrow> extractor_state \<Rightarrow> exn + extractor_state" where
  "process_folder env folder_path [] st = Inr st"
| "process_folder env folder_path (file # files) st =
     (case process_file env folder_path file st of
        Inl e \<Rightarrow> Inl e
      | Inr st1 \<Rightarrow> process_folder env folder_path files st1)"

fun process_sellers ::
  "extractor_env \<Rightarrow> string list \<Rightarrow> extractor_state \<Rightarrow> exn + extractor_state" where
  "process_sellers env [] st = Inr st"
| "process_sellers env (seller # sellers) st =
     (let folder_path = path_join ''sorted_invoices'' seller
      in if \<not> isdir env folder_path then process_sellers env sellers st
         else
           (case process_folder env folder_path (listdir env folder_path) st of
              Inl e \<Rightarrow> Inl e
            | Inr st1 \<Rightarrow> process_sellers env sellers st1))"

definition run_extractor :: "extractor_env \<Rightarrow> extractor_state \<Rightarrow> exn + extractor_state" where
  "run_extractor env st = process_sellers env (listdir env ''sorted_invoices'') st"

section \<open>evaluator.py\<close>

text \<open>
  A cell of the report is a Python value: a string or another parsed value (\<open>Val\<close>), the
  f-string \<open>f"Gemini returned status: {status}"\<close> (\<open>StatusText status\<close>, the call of
  \<open>str\<close> on the status is not expanded), or \<open>str(e)\<close> of a caught exception.
\<close>

datatype cell = Val json | StatusText json | ExcText exn

type_synonym row = "cell list"

definition Str :: "string \<Rightarrow> cell" where
  "Str s = Val (JString (ustr s))"

datatype eval_message =
    Msg_requesting string
  | Msg_not_valid_json_verdict string
  | Msg_gemini_error string
  | Msg_saved_report

text \<open>
  The arguments of \<open>build_prompt\<close>. The prompt text itself is not expanded: a call of
  the model is identified by these four values.
\<close>

record comparison =
  gt_data :: json
  output_data :: json
  deal_breakers_set :: "string list"
  file_name :: string

text \<open>
  What the script reads: the configured \<open>deal_breakers\<close>, the listing of
  \<open>ground_truth\<close>, the files of \<open>ground_truth\<close> and \<open>gemini_output\<close> by path, and the
  model: \<open>verdict c\<close> is \<open>model.generate_content(build_prompt(...)).text\<close>, or the
  message of the exception the call raises. \<open>evaluator_python\<close> is the interpreter that
  runs the script.
\<close>

record evaluator_env =
  deal_breakers :: "string list"
  ground_truth_listing :: "string list"
  files :: "string \<rightharpoonup> file_obj"
  verdict :: "comparison \<Rightarrow> string + string"
  evaluator_python :: interpreter

record evaluator_state =
  results :: "row list"
  console :: "eval_message list"
  model_calls :: "comparison list"

definition cleaned_text :: "string \<Rightarrow> string" where
  "cleaned_text res_text =
     strip (removesuffix (removeprefix (strip res_text) ''```json'') ''```'')"

text \<open>
  Iterating a parsed value in a \<open>for\<close> loop: a list gives its elements, a string its
  characters, a dict its keys; the other values raise \<open>TypeError\<close>.
\<close>

fun py_iter :: "json \<Rightarrow> exn + json list" where
  "py_iter (JArray xs) = Inr xs"
| "py_iter (JString s) = Inr (map (\<lambda>c. JString [c]) s)"
| "py_iter (JObject d) = Inr (map (\<lambda>kv. JString (fst kv)) d)"
| "py_iter v = Inl TypeError"

text \<open>
  The loop over \<open>mismatches\<close>, lines 117 to 124: the rows appended, and the exception
  that ended the loop if one was raised (\<open>.get\<close> on a value that is not a dict).
\<close>

fun mismatch_rows :: "string \<Rightarrow> json list \<Rightarrow> row list \<times> exn option" where
  "mismatch_rows base [] = ([], None)"
| "mismatch_rows base (mismatch # rest) =
     (case mismatch of
        JObject d \<Rightarrow>
          (let (rows, e) = mismatch_rows base rest
           in ([Str base, Str ''Mismatch'',
                Val (dict_get d (ustr ''field'') (JString (ustr ''N/A''))),
                Val (dict_get d (ustr ''expected'') (JString (ustr ''N/A''))),
                Val (dict_get d (ustr ''actual'') (JString (ustr ''N/A'')))] # rows, e))
      | _ \<Rightarrow> ([], Some AttributeError))"

text \<open>Lines 107 to 126, from the parsed verdict: the rows appended and the exception raised.\<close>

definition verdict_rows :: "string \<Rightarrow> json \<Rightarrow> row list \<times> exn option" where
  "verdict_rows base eval_data =
     (case eval_data of
        JObject d \<Rightarrow>
          (let status = dict_get d (ustr ''overall_status'') (JString (ustr ''Parse Error''))
           in if status = JString (ustr ''Pass'') then
                ([[Str base, Str ''Pass'', Str ''-'', Str ''-'', Str ''-'']], None)
              else if status = JString (ustr ''Mismatch'') then
                (let mismatches = dict_get d (ustr ''mismatches'') (JArray [])
                 in if \<not> py_truthy mismatches then
                      ([[Str base, Str ''Mismatch'', Str ''Unknown'',
                         Str ''Gemini reported a mismatch but did not provide details'',
                         Str ''-'']], None)
                    else
                      (case py_iter mismatches of
                         Inl e \<Rightarrow> ([], Some e)
                       | Inr items \<Rightarrow> mismatch_rows base items))
              else
                ([[Str base, Str ''Error'', Str ''Invalid Status'', StatusText status, Str ''-'']],
                 None))
      | _ \<Rightarrow> ([], Some AttributeError))"

definition append_rows :: "row list \<Rightarrow> evaluator_state \<Rightarrow> evaluator_state" where
  "append_rows rows st = st\<lparr>results := results st @ rows\<rparr>"

definition eprint :: "eval_message \<Rightarrow> evaluator_state \<Rightarrow> evaluator_state" where
  "eprint m st = st\<lparr>console := console st @ [m]\<rparr>"

text \<open>
  The \<open>try\<close> statement, lines 99 to 133, with its two handlers: a \<open>JSONDecodeError\<close>
  of \<open>json.loads\<close> goes to the first (lines 128 to 130), every other exception raised
  in the body, by the model call, by \<open>json.loads\<close> or by the lines after it, to the
  second (lines 131 to 133).
\<close>

definition ask_verdict ::
  "evaluator_env \<Rightarrow> string \<Rightarrow> comparison \<Rightarrow> evaluator_state \<Rightarrow> evaluator_state" where
  "ask_verdict env base c st =
     (let st1 = st\<lparr>model_calls := model_calls st @ [c]\<rparr>
      in case verdict env c of
           Inl msg \<Rightarrow>
             append_rows [[Str base, Str ''Error'', Str ''API or other Error'',
                           ExcText (ApiError msg), Str ''-'']]
               (eprint (Msg_gemini_error base) st1)
         | Inr res_text \<Rightarrow>
             (case json_loads (evaluator_python env) (cleaned_text res_text) of
                Inl e \<Rightarrow>
                  if e = JSONDecodeError then
                    append_rows [[Str base, Str ''Error'', Str ''Invalid JSON Verdict'',
                                  Str res_text, Str ''-'']]
                      (eprint (Msg_not_valid_json_verdict base) st1)
                  else
                    append_rows [[Str base, Str ''Error'', Str ''API or other Error'',
                                  ExcText e, Str ''-'']]
                      (eprint (Msg_gemini_error base) st1)
              | Inr eval_data \<Rightarrow>
                  (case verdict_rows base eval_data of
                     (rows, None) \<Rightarrow> append_rows rows st1
                   | (rows, Some e) \<Rightarrow>
                       append_rows [[Str base, Str ''Error'', Str ''API or other Error'',
                                     ExcText e, Str ''-'']]
                         (eprint (Msg_gemini_error base) (append_rows rows st1)))))"

text \<open>
  \<open>json.load\<close> of the two files, lines 92 to 94, outside the \<open>try\<close>: a file that cannot
  be read or that \<open>json.loads\<close> does not parse ends the run with the exception.
\<close>

definition load_pair :: "evaluator_env \<Rightarrow> string \<Rightarrow> string \<Rightarrow> exn + (json \<times> json)" where
  "load_pair env gt_path out_path =
     (case files env gt_path of
        Some (Readable t1) \<Rightarrow>
          (case files env out_path of
             Some (Readable t2) \<Rightarrow>
               (case json_loads (evaluator_python env) t1 of
                  Inl e \<Rightarrow> Inl e
                | Inr gt \<Rightarrow>
                    (case json_loads (evaluator_python env) t2 of
                       Inl e \<Rightarrow> Inl e
                     | Inr out \<Rightarrow> Inr (gt, out)))
           | _ \<Rightarrow> Inl OSError)
      | _ \<Rightarrow> Inl OSError)"

text \<open>
  The body of the loop, lines 78 to 133. \<open>build_prompt\<close> (line 97, outside the
  \<open>try\<close>) calls \<open>json.dumps\<close> on the ground truth and then on the output; an exception
  there ends the run.
\<close>

definition evaluate_file ::
  "evaluator_env \<Rightarrow> string \<Rightarrow> evaluator_state \<Rightarrow> exn + evaluator_state" where
  "evaluate_file env file st =
     (if \<not> endswith file ''.json'' then Inr st
      else
        (let base = fst (splitext file);
             st1 = eprint (Msg_requesting base) st;
             gt_path = path_join ''ground_truth'' file;
             out_path = path_join ''gemini_output'' file
         in if files env out_path = None then
              Inr (append_rows [[Str base, Str ''Missing Output'', Str ''-'', Str ''-'', Str ''-'']] st1)
            else
              (case load_pair env gt_path out_path of
                 Inl e \<Rightarrow> Inl e
               | Inr (gt, out) \<Rightarrow>
                   (case dump_error (evaluator_python env) gt of
                      Some e \<Rightarrow> Inl e
                    | None \<Rightarrow>
                        (case dump_error (evaluator_python env) out of
                           Some e \<Rightarrow> Inl e
                         | None \<Rightarrow>
                             Inr (ask_verdict env base
                                    \<lparr>gt_data = gt, output_data = out,
                                     deal_breakers_set = sort (remdups (deal_breakers env)),
                                     file_name = base\<rparr> st1))))))"

fun evaluate_files ::
  "evaluator_env \<Rightarrow> string list \<Rightarrow> evaluator_state \<Rightarrow> exn + evaluator_state" where
  "evaluate_files env [] st = Inr st"
| "evaluate_files env (file # rest) st =
     (case evaluate_file env file st of
        Inl e \<Rightarrow> Inl e
      | Inr st1 \<Rightarrow> evaluate_files env rest st1)"

text \<open>The whole script: the rows of the report written at the end, or the exception.\<close>

definition run_evaluator :: "evaluator_env \<Rightarrow> exn + evaluator_state" where
  "run_evaluator env =
     (case evaluate_files env (sort (ground_truth_listing env))
             \<lparr>results = [], console = [], model_calls = []\<rparr> of
        Inl e \<Rightarrow> Inl e
      | Inr st \<Rightarrow> Inr (eprint Msg_saved_report st))"

section \<open>Definitions used in the statements\<close>

text \<open>
  The two dispositions of a file of the batch, as a relation between the state before and
  after the file is processed: the output is written and nothing is moved, or the file is
  moved and nothing is written.
\<close>

definition output_written :: "string \<Rightarrow> extractor_state \<Rightarrow> extractor_state \<Rightarrow> bool" where
  "output_written file st st' =
     ((\<exists>obj. gemini_output st' =
         (gemini_output st)(path_join ''gemini_output'' (fst (splitext file) @ ''.json'') \<mapsto> obj))
      \<and> sorted_invoices st' = sorted_invoices st
      \<and> error_invoices st' = error_invoices st)"

definition moved_to_error :: "string \<Rightarrow> string \<Rightarrow> extractor_state \<Rightarrow> extractor_state \<Rightarrow> bool" where
  "moved_to_error folder_path file st st' =
     (gemini_output st' = gemini_output st
      \<and> sorted_invoices st' = (sorted_invoices st)(path_join folder_path file := None)
      \<and> error_invoices st' =
          (error_invoices st)(path_join ''error_invoices'' file :=
             sorted_invoices st (path_join folder_path file)))"

text \<open>
  An interpreter whose limits do not depend on the JSON white space around a text: it
  reaches a limit on a text exactly when it reaches it on the text without that white
  space.
\<close>

definition ignores_outer_ws :: "interpreter \<Rightarrow> bool" where
  "ignores_outer_ws py =
     (\<forall>w1 s w2. list_all json_ws w1 \<and> list_all json_ws w2
        \<longrightarrow> limit_error py (w1 @ s @ w2) = limit_error py s)"

text \<open>Appending text to the rest that a scanner returns.\<close>

definition app :: "string \<Rightarrow> ('a \<times> string) outcome \<Rightarrow> ('a \<times> string) outcome" where
  "app w x = (case x of Done (v, r) \<Rightarrow> Done (v, r @ w) | Failed \<Rightarrow> Failed | Exhausted \<Rightarrow> Exhausted)"

definition app_opt :: "string \<Rightarrow> ('a \<times> string) option \<Rightarrow> ('a \<times> string) option" where
  "app_opt w x = (case x of None \<Rightarrow> None | Some (v, r) \<Rightarrow> Some (v, r @ w))"

text \<open>
  Model responses, environments and states used as concrete inputs. \<open>cautious_python\<close>
  is an interpreter that gives up sooner than CPython does with its default settings: on
  every text with more than 4300 digits it raises the \<open>ValueError\<close> of the integer digit
  limit, and on every other text with more than 900 opening brackets the
  \<open>RecursionError\<close>; it parses all other texts and writes every value.
\<close>

definition cautious_python :: interpreter where
  "cautious_python =
     \<lparr>limit_error =
        (\<lambda>s. if 4300 < length (filter is_digit s) then Some ValueError
             else if 900 < length (filter (\<lambda>c. c = CHR ''['' \<or> c = CHR ''{'') s)
               then Some RecursionError
             else None),
      dump_error = (\<lambda>v. None)\<rparr>"

definition big_pass :: string where
  \<open>big_pass = ''{"overall_status": "Pass", "mismatches": [], "n": '' @ replicate 4301 CHR ''1'' @ ''}''\<close>

definition deep_pass :: string where
  \<open>deep_pass =
     ''{"overall_status": "Pass", "mismatches": [], "n": '' @ replicate 1000 CHR ''[''
       @ replicate 1000 CHR '']'' @ ''}''\<close>

definition fenced_mismatch_verdict :: string where
  \<open>fenced_mismatch_verdict =
     ''```json\<newline>{"overall_status": "Mismatch", "mismatches": [{"field": "total", "expected": "$100.00", "actual": "100.00"}, {"field": "tax"}]}\<newline>```''\<close>

definition pass_verdict :: string where
  \<open>pass_verdict = ''{"overall_status": "Pass", "mismatches": []}''\<close>

definition degraded_verdict :: string where
  \<open>degraded_verdict = ''{"overall_status": "Mismatch", "mismatches": []}''\<close>

definition unknown_status_verdict :: string where
  \<open>unknown_status_verdict = ''{"overall_status": "Fail"}''\<close>

definition prose_wrapped_verdict :: string where
  \<open>prose_wrapped_verdict = ''Verdict: {"overall_status": "Pass", "mismatches": []}''\<close>

definition invoice_json :: string where
  \<open>invoice_json = ''{"invoice": {"client_name": "Acme"}, "items": []}''\<close>

definition answering :: "string \<Rightarrow> evaluator_env" where
  "answering res_text =
     \<lparr>deal_breakers = [''total''], ground_truth_listing = [''inv1.json''],
      files = Map.empty, verdict = (\<lambda>c. Inr res_text),
      evaluator_python = cautious_python\<rparr>"

definition inv1_comparison :: comparison where
  "inv1_comparison =
     \<lparr>gt_data = JObject [], output_data = JObject [],
      deal_breakers_set = [''total''], file_name = ''inv1''\<rparr>"

definition empty_report :: evaluator_state where
  "empty_report = \<lparr>results = [], console = [], model_calls = []\<rparr>"

definition responding :: "string \<Rightarrow> extractor_env" where
  "responding res_text =
     \<lparr>read_excel_to_csv = (\<lambda>f. None),
      guess_type = (\<lambda>p. Some ''application/pdf''),
      generate_content = (\<lambda>p req. Some res_text),
      listdir = (\<lambda>d. if d = ''sorted_invoices'' then [''Acme''] else [''inv1.pdf'']),
      isdir = (\<lambda>d. True),
      extractor_python = cautious_python\<rparr>"

text \<open>The same directory when the invoice is a file without read permission.\<close>

definition locked_invoice :: extractor_state where
  "locked_invoice =
     \<lparr>sorted_invoices = [''sorted_invoices/Acme/inv1.pdf'' \<mapsto> Unreadable],
      gemini_output = Map.empty,
      error_invoices = Map.empty,
      stdout = [],
      requests = []\<rparr>"

definition one_invoice :: extractor_state where
  "one_invoice =
     \<lparr>sorted_invoices = [''sorted_invoices/Acme/inv1.pdf'' \<mapsto> Readable ''%PDF-1.4''],
      gemini_output = Map.empty,
      error_invoices = Map.empty,
      stdout = [],
      requests = []\<rparr>"

section \<open>The scanner: consumed text, bounds, trailing white space\<close>

lemma prepend_Some: "prepend u x = Some (k, r) \<longleftrightarrow> (\<exists>k'. x = Some (k', r) \<and> k = u # k')"
  by (auto simp: prepend_def split: option.splits)

lemma skip_ws_suffix: "suffix (skip_ws s) s"
  by (simp add: skip_ws_def suffix_dropWhile)

lemma skip_ws_Cons_suffix: "skip_ws s = c # r \<Longrightarrow> suffix (c # r) s"
  by (metis skip_ws_suffix)

lemma suffix_shorter: "suffix (c # r) s \<Longrightarrow> suffix r s \<and> length r < length s"
  by (metis Suc_le_lessD length_Cons suffix_ConsD suffix_length_le)

lemma match_digits_suffix:
  "match_digits s = Some (i, r) \<Longrightarrow> suffix r s \<and> length r < length s"
  by (cases s)
    (auto simp: match_digits_def suffix_ConsI suffix_dropWhile le_imp_less_Suc
      length_dropWhile_le split: if_splits)

lemma match_integer_suffix:
  "match_integer s = Some (i, r) \<Longrightarrow> suffix r s \<and> length r < length s"
  by (cases s)
    (auto simp: match_integer_def suffix_ConsI split: if_splits option.splits
      dest!: match_digits_suffix)

lemma match_frac_suffix: "match_frac s = (f, r) \<Longrightarrow> suffix r s"
  by (auto simp: match_frac_def suffix_dropWhile suffix_ConsI split: list.splits if_splits)

lemma match_exp_suffix: "match_exp s = (e, r) \<Longrightarrow> suffix r s"
  by (auto simp: match_exp_def suffix_dropWhile suffix_ConsI split: list.splits if_splits)

lemma match_number_suffix:
  "match_number s = Some (i, f, e, r) \<Longrightarrow> suffix r s \<and> length r < length s"
proof -
  assume a: "match_number s = Some (i, f, e, r)"
  then obtain s1 s2 where "match_integer s = Some (i, s1)" "match_frac s1 = (f, s2)"
    "match_exp s2 = (e, r)"
    by (auto simp: match_number_def split: option.splits prod.splits)
  then have "suffix s1 s" "length s1 < length s" "suffix s2 s1" "suffix r s2"
    using match_integer_suffix match_frac_suffix match_exp_suffix by blast+
  then show ?thesis
    using suffix_length_le[of s2 s1] suffix_length_le[of r s2]
    by (auto intro: suffix_order.trans)
qed

lemma take_drop_suffix: "take n s = p \<Longrightarrow> p \<noteq> [] \<Longrightarrow> suffix (drop n s) s \<and> length (drop n s) < length s"
  by (cases n; cases s) (auto simp: suffix_drop suffix_ConsI intro: le_imp_less_Suc)

lemma scan_literal_suffix:
  "scan_literal s = Done (v, r) \<Longrightarrow> suffix r s \<and> length r < length s \<and> (\<forall>d. v \<noteq> JObject d)"
  unfolding scan_literal_def
  by (auto split: if_splits option.splits prod.splits dest!: match_number_suffix
      dest: take_drop_suffix)

lemma py_scanstring_shape:
  "py_scanstring s = Some (k, r) \<Longrightarrow> \<exists>c. s = c @ dquote # r"
proof (induction s arbitrary: k r rule: py_scanstring.induct)
  case 1
  then show ?case by simp
next
  case (2 c cs)
  note IH = "2.IH" and prems = "2.prems"
  show ?case
  proof (cases "c = dquote")
    case True
    with prems have "r = cs" by simp
    with True show ?thesis by (intro exI[of _ "[]"]) simp
  next
    case nq: False
    show ?thesis
    proof (cases "c = backslash")
      case False
      with nq prems obtain k' where ctl: "\<not> of_char c < (32::nat)" and "py_scanstring cs = Some (k', r)"
        by (auto simp: prepend_Some split: if_splits)
      with IH(5)[OF nq False] obtain c' where "cs = c' @ dquote # r"
        by blast
      then have "c # cs = (c # c') @ dquote # r" by simp
      then show ?thesis by blast
    next
      case bs: True
      then obtain esc r0 where cs: "cs = esc # r0"
        using prems nq by (cases cs) auto
      have "\<exists>m c'. drop m r0 = c' @ dquote # r"
      proof (cases "esc = CHR ''u''")
        case False
        with prems nq bs cs obtain ch k' where "BACKSLASH esc = Some ch" "py_scanstring r0 = Some (k', r)"
          by (auto simp: prepend_Some split: option.splits)
        with IH(4)[OF nq bs cs False] show ?thesis
          by (metis drop0)
      next
        case u: True
        with prems nq bs cs obtain uni where uni: "decode_uXXXX r0 = Some uni"
          by (auto split: option.splits)
        show ?thesis
        proof (cases "0xD800 \<le> uni \<and> uni \<le> 0xDBFF \<and> take 2 (drop 4 r0) = [backslash, CHR ''u'']")
          case False
          with prems nq bs cs u uni obtain k' where "py_scanstring (drop 4 r0) = Some (k', r)"
            by (auto simp: prepend_Some split: option.splits if_splits)
          with IH(3)[OF nq bs cs u uni] False show ?thesis by blast
        next
          case pair: True
          with prems nq bs cs u uni obtain uni2 where uni2: "decode_uXXXX (drop 6 r0) = Some uni2"
            by (auto split: option.splits)
          show ?thesis
          proof (cases "0xDC00 \<le> uni2 \<and> uni2 \<le> 0xDFFF")
            case True
            with prems nq bs cs u uni pair uni2 obtain k' where "py_scanstring (drop 10 r0) = Some (k', r)"
              by (auto simp: prepend_Some split: option.splits if_splits)
            with IH(1)[OF nq bs cs u uni pair uni2 True] show ?thesis by blast
          next
            case False
            with prems nq bs cs u uni pair uni2 obtain k' where "py_scanstring (drop 4 r0) = Some (k', r)"
              by (auto simp: prepend_Some split: option.splits if_splits)
            with IH(2)[OF nq bs cs u uni pair uni2 False] show ?thesis by blast
          qed
        qed
      qed
      then obtain m c' where "drop m r0 = c' @ dquote # r" by blast
      then have "c # cs = (c # esc # take m r0 @ c') @ dquote # r"
        using cs by (metis append_Cons append_assoc append_take_drop_id)
      then show ?thesis by blast
    qed
  qed
qed


lemma py_scanstring_suffix:
  "py_scanstring s = Some (k, r) \<Longrightarrow> suffix (dquote # r) s"
  using py_scanstring_shape by (fastforce simp: suffix_def)

lemma suffix_trans_Cons: "suffix a b \<Longrightarrow> suffix b s \<Longrightarrow> suffix a (c # s)"
  by (meson suffix_ConsI suffix_order.trans)

lemma shape_aux:
  "(\<forall>s v r. scan_once n s = Done (v, r) \<longrightarrow>
       suffix r s \<and> length r < length s \<and>
       (\<forall>d. v = JObject d \<longrightarrow> hd s = CHR ''{'' \<and> suffix (CHR ''}'' # r) s))
   \<and> (\<forall>s p v r. JSONObject n s p = Done (v, r) \<longrightarrow> suffix (CHR ''}'' # r) s)
   \<and> (\<forall>s a v r. JSONArray n s a = Done (v, r) \<longrightarrow>
       suffix r s \<and> length r < length s \<and> (\<forall>d. v \<noteq> JObject d))"
proof (induction n)
  case 0
  show ?case by simp
next
  case (Suc n)
  then have so: "\<And>s v r. scan_once n s = Done (v, r) \<Longrightarrow> suffix r s"
    and ob: "\<And>s p v r. JSONObject n s p = Done (v, r) \<Longrightarrow> suffix (CHR ''}'' # r) s"
    and ar: "\<And>s a v r. JSONArray n s a = Done (v, r) \<Longrightarrow>
       suffix r s \<and> length r < length s \<and> (\<forall>d. v \<noteq> JObject d)"
    by blast+
  have 2: "suffix (CHR ''}'' # r) s" if a: "JSONObject (Suc n) s p = Done (v, r)" for s p v r
  proof -
    from a obtain key s1 where k: "py_scanstring s = Some (key, s1)"
      by (auto split: option.splits)
    from a k obtain s2 where c: "skip_ws s1 = CHR '':'' # s2"
      by (auto split: list.splits if_splits)
    from a k c obtain val s3 where v: "scan_once n (skip_ws s2) = Done (val, s3)"
      by (auto split: outcome.splits)
    from a k c v obtain nextchar s4 where n: "skip_ws s3 = nextchar # s4"
      by (auto split: list.splits)
    have s3: "suffix s3 s"
      using py_scanstring_suffix[OF k] skip_ws_Cons_suffix[OF c] so[OF v] skip_ws_suffix[of s2]
      by (meson suffix_ConsD suffix_order.trans)
    have s4: "suffix (nextchar # s4) s"
      using s3 skip_ws_Cons_suffix[OF n] by (meson suffix_order.trans)
    show ?thesis
    proof (cases "nextchar = CHR ''}''")
      case True
      with a k c v n have "r = s4" by simp
      with s4 True show ?thesis by simp
    next
      case False
      with a k c v n obtain s5 where q: "skip_ws s4 = dquote # s5"
        and rec: "JSONObject n s5 (p @ [(key, val)]) = Done (v, r)"
        by (auto split: list.splits if_splits)
      have "suffix s5 s"
        using s4 skip_ws_Cons_suffix[OF q] by (meson suffix_ConsD suffix_order.trans)
      with ob[OF rec] show ?thesis by (meson suffix_order.trans)
    qed
  qed
  have 3: "suffix r s \<and> length r < length s \<and> (\<forall>d. v \<noteq> JObject d)"
    if a: "JSONArray (Suc n) s vs = Done (v, r)" for s vs v r
  proof -
    from a obtain val s1 where v: "scan_once n s = Done (val, s1)"
      by (auto split: outcome.splits)
    from a v obtain nextchar s2 where n: "skip_ws s1 = nextchar # s2"
      by (auto split: list.splits)
    have s2: "suffix (nextchar # s2) s"
      using so[OF v] skip_ws_Cons_suffix[OF n] by (meson suffix_order.trans)
    show ?thesis
    proof (cases "nextchar = CHR '']''")
      case True
      with a v n have "r = s2" "v = JArray (vs @ [val])" by simp_all
      with suffix_shorter[OF s2] show ?thesis by simp
    next
      case False
      with a v n have rec: "JSONArray n (skip_ws s2) (vs @ [val]) = Done (v, r)"
        by (auto split: if_splits)
      have "suffix (skip_ws s2) s" "length (skip_ws s2) < length s"
        using suffix_shorter[OF s2] skip_ws_suffix[of s2] suffix_length_le[of "skip_ws s2" s2]
        by (auto intro: suffix_order.trans)
      with ar[OF rec] show ?thesis
        by (auto intro: suffix_order.trans)
    qed
  qed
  have 1: "suffix r s \<and> length r < length s \<and>
       (\<forall>d. v = JObject d \<longrightarrow> hd s = CHR ''{'' \<and> suffix (CHR ''}'' # r) s)"
    if a: "scan_once (Suc n) s = Done (v, r)" for s v r
  proof -
    from a obtain nextchar r0 where s: "s = nextchar # r0"
      by (cases s) auto
    consider (str) "nextchar = dquote"
      | (obj) "nextchar = CHR ''{''"
      | (arr) "nextchar = CHR ''[''"
      | (lit) "nextchar \<noteq> dquote" "nextchar \<noteq> CHR ''{''" "nextchar \<noteq> CHR ''[''"
      by blast
    then show ?thesis
    proof cases
      case str
      with a s obtain k where k: "py_scanstring r0 = Some (k, r)" and v: "v = JString k"
        by (auto split: option.splits)
      have "suffix (dquote # r) s"
        using py_scanstring_suffix[OF k] s by (simp add: suffix_ConsI)
      with suffix_shorter[OF this] v show ?thesis by simp
    next
      case obj
      with a s obtain c r1 where c: "skip_ws r0 = c # r1"
        by (auto simp: dquote_def split: list.splits)
      have c1: "suffix (c # r1) s"
        using skip_ws_Cons_suffix[OF c] s by (simp add: suffix_ConsI)
      have "suffix (CHR ''}'' # r) s"
      proof (cases "c = CHR ''}''")
        case True
        with a s obj c have "r = r1" by (simp add: dquote_def)
        with c1 True show ?thesis by simp
      next
        case False
        with a s obj c have rec: "JSONObject n r1 [] = Done (v, r)"
          by (auto simp: dquote_def split: if_splits)
        from ob[OF rec] c1 show ?thesis
          by (meson suffix_ConsD suffix_order.trans)
      qed
      with suffix_shorter[OF this] s obj show ?thesis by simp
    next
      case arr
      with a s obtain c r1 where c: "skip_ws r0 = c # r1"
        by (auto simp: dquote_def split: list.splits)
      have c1: "suffix (c # r1) s"
        using skip_ws_Cons_suffix[OF c] s by (simp add: suffix_ConsI)
      show ?thesis
      proof (cases "c = CHR '']''")
        case True
        with a s arr c have "r = r1" "v = JArray []" by (simp_all add: dquote_def)
        with suffix_shorter[OF c1] show ?thesis by simp
      next
        case False
        with a s arr c have rec: "JSONArray n (c # r1) [] = Done (v, r)"
          by (auto simp: dquote_def split: if_splits)
        from ar[OF rec] c1 suffix_shorter[OF c1] show ?thesis
          by (auto intro: suffix_order.trans dest: suffix_length_le)
      qed
    next
      case lit
      with a s have "scan_literal s = Done (v, r)" by simp
      from scan_literal_suffix[OF this] show ?thesis by simp
    qed
  qed
  show ?case using 1 2 3 by blast
qed

lemmas scan_once_shorter = shape_aux[THEN conjunct1, rule_format]
lemmas JSONObject_suffix = shape_aux[THEN conjunct2, THEN conjunct1, rule_format]
lemmas JSONArray_shorter = shape_aux[THEN conjunct2, THEN conjunct2, rule_format]

lemma skip_ws_length: "length (skip_ws s) \<le> length s"
  by (simp add: skip_ws_def length_dropWhile_le)

lemma skip_ws_Cons_length: "skip_ws s = c # r \<Longrightarrow> length r < length s"
  using suffix_shorter[OF skip_ws_Cons_suffix] by simp

lemma py_scanstring_shorter: "py_scanstring s = Some (k, r) \<Longrightarrow> length r < length s"
  using py_scanstring_suffix[of s k r] suffix_shorter[of dquote r s] by simp

lemma fuel_enough_aux:
  "(\<forall>s. 2 * length s + 1 \<le> n \<longrightarrow> scan_once n s \<noteq> Exhausted)
   \<and> (\<forall>s p. 2 * length s + 1 \<le> n \<longrightarrow> JSONObject n s p \<noteq> Exhausted)
   \<and> (\<forall>s a. 2 * length s + 2 \<le> n \<longrightarrow> JSONArray n s a \<noteq> Exhausted)"
proof (induction n)
  case 0
  show ?case by simp
next
  case (Suc n)
  then have so: "\<And>s. 2 * length s + 1 \<le> n \<Longrightarrow> scan_once n s \<noteq> Exhausted"
    and ob: "\<And>s p. 2 * length s + 1 \<le> n \<Longrightarrow> JSONObject n s p \<noteq> Exhausted"
    and ar: "\<And>s a. 2 * length s + 2 \<le> n \<Longrightarrow> JSONArray n s a \<noteq> Exhausted"
    by blast+
  have 1: "scan_once (Suc n) s \<noteq> Exhausted" if "2 * length s + 1 \<le> Suc n" for s
  proof (cases s)
    case Nil
    then show ?thesis by simp
  next
    case (Cons nextchar r0)
    have lit_ne: "scan_literal s \<noteq> Exhausted"
      by (simp add: scan_literal_def split: option.splits prod.splits)
    consider (str) "nextchar = dquote"
      | (obj) "nextchar = CHR ''{''"
      | (arr) "nextchar = CHR ''[''"
      | (lit) "nextchar \<noteq> dquote" "nextchar \<noteq> CHR ''{''" "nextchar \<noteq> CHR ''[''"
      by blast
    then show ?thesis
    proof cases
      case str
      with Cons show ?thesis by (simp split: option.splits prod.splits)
    next
      case obj
      show ?thesis
      proof (cases "skip_ws r0")
        case Nil
        with Cons obj show ?thesis by (simp add: dquote_def)
      next
        case c: (Cons c r1)
        have "2 * length r1 + 1 \<le> n"
          using that Cons skip_ws_Cons_length[OF c] by simp
        from ob[OF this] Cons obj c show ?thesis by (simp add: dquote_def)
      qed
    next
      case arr
      show ?thesis
      proof (cases "skip_ws r0")
        case Nil
        with Cons arr show ?thesis by (simp add: dquote_def)
      next
        case c: (Cons c r1)
        have "2 * length (c # r1) + 2 \<le> n"
          using that Cons skip_ws_Cons_length[OF c] by simp
        from ar[OF this] Cons arr c show ?thesis by (simp add: dquote_def)
      qed
    next
      case lit
      with Cons lit lit_ne show ?thesis by simp
    qed
  qed
  have 2: "JSONObject (Suc n) s p \<noteq> Exhausted" if le: "2 * length s + 1 \<le> Suc n" for s p
  proof (cases "py_scanstring s")
    case None
    then show ?thesis by simp
  next
    case (Some a)
    then obtain key s1 where k: "py_scanstring s = Some (key, s1)" by (cases a) auto
    show ?thesis
    proof (cases "skip_ws s1")
      case Nil
      with k show ?thesis by simp
    next
      case (Cons colon s2)
      have l2: "length s2 < length s - 1"
        using py_scanstring_shorter[OF k] skip_ws_Cons_length[OF Cons] by simp
      then have f: "2 * length (skip_ws s2) + 1 \<le> n"
        using le skip_ws_length[of s2] by simp
      show ?thesis
      proof (cases "scan_once n (skip_ws s2)")
        case (Done x)
        obtain val s3 where x: "x = (val, s3)" by (cases x)
        have l3: "length s3 < length (skip_ws s2)"
          using scan_once_shorter[of n "skip_ws s2" val s3] Done x by simp
        show ?thesis
        proof (cases "skip_ws s3")
          case Nil
          with k Cons Done x show ?thesis by simp
        next
          case c4: (Cons nextchar s4)
          show ?thesis
          proof (cases "skip_ws s4")
            case Nil
            with k Cons Done x c4 show ?thesis by simp
          next
            case c5: (Cons q s5)
            have "length s5 < length s"
              using l2 l3 skip_ws_length[of s2] skip_ws_Cons_length[OF c4] skip_ws_Cons_length[OF c5]
              by simp
            then have "JSONObject n s5 (p @ [(key, val)]) \<noteq> Exhausted"
              using le by (intro ob) simp
            with k Cons Done x c4 c5 show ?thesis by simp
          qed
        qed
      next
        case Failed
        with k Cons show ?thesis by simp
      next
        case Exhausted
        with so[OF f] show ?thesis by simp
      qed
    qed
  qed
  have 3: "JSONArray (Suc n) s a \<noteq> Exhausted" if le: "2 * length s + 2 \<le> Suc n" for s a
  proof (cases "scan_once n s")
    case (Done x)
    obtain val s1 where x: "x = (val, s1)" by (cases x)
    have l1: "length s1 < length s"
      using scan_once_shorter[of n s val s1] Done x by simp
    show ?thesis
    proof (cases "skip_ws s1")
      case Nil
      with Done x show ?thesis by simp
    next
      case (Cons nextchar s2)
      have "2 * length (skip_ws s2) + 2 \<le> n"
        using l1 le skip_ws_Cons_length[OF Cons] skip_ws_length[of s2] by simp
      from ar[OF this] Done x Cons show ?thesis by simp
    qed
  next
    case Failed
    then show ?thesis by simp
  next
    case Exhausted
    with so[of s] le show ?thesis by simp
  qed
  show ?case using 1 2 3 by blast
qed

lemma decode_not_Exhausted: "decode (2 * length s + 1) s \<noteq> Exhausted"
proof -
  have "scan_once (2 * length s + 1) (skip_ws s) \<noteq> Exhausted"
    using fuel_enough_aux[THEN conjunct1, rule_format, of "skip_ws s" "2 * length s + 1"]
      skip_ws_length[of s] by simp
  then show ?thesis
    by (auto simp: decode_def split: outcome.splits)
qed

lemma app_simps [simp]:
  "app w (Done (v, r)) = Done (v, r @ w)" "app w Failed = Failed" "app w Exhausted = Exhausted"
  by (simp_all add: app_def)

lemma json_ws_cases:
  "json_ws c \<Longrightarrow> c = CHR '' '' \<or> c = CHR 0x09 \<or> c = CHR 0x0A \<or> c = CHR 0x0D"
  by (simp add: json_ws_def)

lemma json_ws_not_special:
  assumes "json_ws c"
  shows "c \<noteq> dquote \<and> c \<noteq> backslash \<and> \<not> is_digit c \<and> c \<noteq> CHR ''.'' \<and> c \<noteq> CHR ''e''
     \<and> c \<noteq> CHR ''E'' \<and> c \<noteq> CHR ''-'' \<and> c \<noteq> CHR ''+'' \<and> c \<noteq> CHR ''u''
     \<and> c \<noteq> CHR ''{'' \<and> c \<noteq> CHR ''}'' \<and> c \<noteq> CHR ''['' \<and> c \<noteq> CHR '']''
     \<and> c \<noteq> CHR '':'' \<and> c \<noteq> CHR '','' \<and> c \<noteq> CHR ''n'' \<and> c \<noteq> CHR ''t''
     \<and> c \<noteq> CHR ''f'' \<and> c \<noteq> CHR ''N'' \<and> c \<noteq> CHR ''I'' \<and> c \<noteq> CHR ''0''
     \<and> hexval c = None \<and> BACKSLASH c = None"
  using json_ws_cases[OF assms]
  by (elim disjE; simp add: dquote_def backslash_def is_digit_def hexval_def BACKSLASH_def
      less_eq_char_def)

lemma skip_ws_append:
  "list_all json_ws w \<Longrightarrow> skip_ws (s @ w) = (if skip_ws s = [] then [] else skip_ws s @ w)"
  by (auto simp: skip_ws_def dropWhile_append list_all_iff)

lemma digits_ws:
  "list_all json_ws w \<Longrightarrow> takeWhile is_digit w = [] \<and> dropWhile is_digit w = w"
  using json_ws_not_special by (cases w) auto

lemma digits_append:
  assumes "list_all json_ws w"
  shows "takeWhile is_digit (r @ w) = takeWhile is_digit r"
    and "dropWhile is_digit (r @ w) = dropWhile is_digit r @ w"
  using digits_ws[OF assms] by (induction r) auto

lemma match_digits_ws: "list_all json_ws w \<Longrightarrow> match_digits w = None"
  using json_ws_not_special by (cases w) (auto simp: match_digits_def)

lemma match_digits_append:
  assumes w: "list_all json_ws w"
  shows "match_digits (s @ w) = map_option (\<lambda>(i, r). (i, r @ w)) (match_digits s)"
proof (cases s)
  case Nil
  then show ?thesis using match_digits_ws[OF w] by (simp add: match_digits_def)
next
  case (Cons c r)
  then show ?thesis by (simp add: match_digits_def digits_append[OF w])
qed

lemma match_integer_append:
  assumes w: "list_all json_ws w"
  shows "match_integer (s @ w) = map_option (\<lambda>(i, r). (i, r @ w)) (match_integer s)"
proof (cases s)
  case Nil
  have "match_integer w = None"
    using w json_ws_not_special match_digits_ws[OF w] by (cases w) (auto simp: match_integer_def)
  with Nil show ?thesis by (simp add: match_integer_def)
next
  case (Cons c r)
  then show ?thesis
    using match_digits_append[OF w, of r] match_digits_append[OF w, of "c # r"]
    by (auto simp: match_integer_def split: option.splits)
qed

lemma match_frac_append:
  assumes w: "list_all json_ws w"
  shows "match_frac (s @ w) = (case match_frac s of (f, r) \<Rightarrow> (f, r @ w))"
proof (cases s)
  case Nil
  have "match_frac w = ([], w)"
    using w json_ws_not_special by (cases w) (auto simp: match_frac_def)
  with Nil show ?thesis by (simp add: match_frac_def)
next
  case (Cons c r)
  then show ?thesis by (simp add: match_frac_def digits_append[OF w])
qed

lemma match_exp_append:
  assumes w: "list_all json_ws w"
  shows "match_exp (s @ w) = (case match_exp s of (f, r) \<Rightarrow> (f, r @ w))"
proof (cases s)
  case Nil
  have "match_exp w = ([], w)"
    using w json_ws_not_special by (cases w) (auto simp: match_exp_def)
  with Nil show ?thesis by (simp add: match_exp_def)
next
  case (Cons c r)
  show ?thesis
  proof (cases r)
    case Nil
    have "match_exp (c # w) = ([], c # w)"
      using w json_ws_not_special digits_ws[OF w]
      by (cases w) (auto simp: match_exp_def)
    with Cons Nil show ?thesis by (simp add: match_exp_def)
  next
    case r: (Cons sign r1)
    show ?thesis
      using Cons r digits_append[OF w, of r1] digits_append[OF w, of "sign # r1"]
      by (simp add: match_exp_def)
  qed
qed

lemma match_number_append:
  assumes w: "list_all json_ws w"
  shows "match_number (s @ w) = map_option (\<lambda>(i, f, e, r). (i, f, e, r @ w)) (match_number s)"
  by (auto simp: match_number_def match_integer_append[OF w] match_frac_append[OF w]
      match_exp_append[OF w] split: option.splits prod.splits)

lemma take_append_ws:
  assumes w: "list_all json_ws w" and p: "\<forall>c\<in>set p. \<not> json_ws c" and n: "n = length p"
  shows "take n (s @ w) = p \<longleftrightarrow> take n s = p"
proof (cases "n \<le> length s")
  case True
  then show ?thesis by simp
next
  case False
  then have short: "take n s \<noteq> p" using n by (metis length_take min.cobounded1 min_def)
  have "take n (s @ w) \<noteq> p"
  proof
    assume e: "take n (s @ w) = p"
    then have "s @ take (n - length s) w = p" using False by simp
    moreover have "take (n - length s) w \<noteq> []"
      using e False n by (metis append_Nil2 length_take min.cobounded1 min_def take_eq_Nil take_append short calculation)
    ultimately obtain c where "c \<in> set (take (n - length s) w)" "c \<in> set p"
      by (metis Un_iff last_in_set set_append)
    then show False using w p by (metis in_set_takeD list_all_iff)
  qed
  with short show ?thesis by simp
qed

lemma take_drop_append:
  "take n s = p \<Longrightarrow> length p = n \<Longrightarrow> drop n (s @ w) = drop n s @ w"
  by (metis drop_append length_take min.absorb_iff2 nat_le_linear diff_is_0_eq drop0 min_def)

lemma decode_uXXXX_length: "decode_uXXXX s = Some u \<Longrightarrow> 4 \<le> length s"
proof (rule ccontr)
  assume a: "decode_uXXXX s = Some u" and "\<not> 4 \<le> length s"
  then have "length (map hexval (take 4 s)) < 4" by simp
  then have "decode_uXXXX s = None"
    unfolding decode_uXXXX_def
    by (cases "map hexval (take 4 s)") (auto split: list.splits option.splits)
  with a show False by simp
qed

lemma decode_uXXXX_None:
  "None \<in> set (map hexval (take 4 s)) \<Longrightarrow> decode_uXXXX s = None"
  unfolding decode_uXXXX_def
  by (cases "map hexval (take 4 s)") (auto split: list.splits option.splits)

lemma decode_uXXXX_append:
  assumes w: "list_all json_ws w"
  shows "decode_uXXXX (s @ w) = decode_uXXXX s"
proof (cases "4 \<le> length s")
  case True
  then show ?thesis by (simp add: decode_uXXXX_def)
next
  case False
  then have r: "decode_uXXXX s = None"
    using decode_uXXXX_length by (cases "decode_uXXXX s") auto
  show ?thesis
  proof (cases "take (4 - length s) w")
    case Nil
    then have "length (s @ w) < 4" using False by (cases w) auto
    then have "decode_uXXXX (s @ w) = None"
      using decode_uXXXX_length by (cases "decode_uXXXX (s @ w)") fastforce+
    with r show ?thesis by simp
  next
    case (Cons c t)
    then have "c \<in> set w" by (metis in_set_takeD list.set_intros(1))
    then have "hexval c = None" using w json_ws_not_special by (simp add: list_all_iff)
    moreover have "c \<in> set (take 4 (s @ w))" using Cons False by simp
    ultimately have "None \<in> set (map hexval (take 4 (s @ w)))"
      by (metis image_eqI set_map)
    from decode_uXXXX_None[OF this] r show ?thesis by simp
  qed
qed

lemma py_scanstring_ws: "list_all json_ws w \<Longrightarrow> py_scanstring w = None"
proof (induction w)
  case Nil
  then show ?case by simp
next
  case (Cons c w)
  then have "json_ws c" "py_scanstring w = None" by simp_all
  with json_ws_not_special[of c] show ?case by (simp add: prepend_def)
qed

lemma app_opt_simps [simp]:
  "app_opt w None = None" "app_opt w (Some (v, r)) = Some (v, r @ w)"
  by (simp_all add: app_opt_def)

lemma app_opt_prepend: "app_opt w (prepend u x) = prepend u (app_opt w x)"
  by (auto simp: app_opt_def prepend_def split: option.splits)

lemma py_scanstring_append:
  assumes w: "list_all json_ws w"
  shows "py_scanstring (s @ w) = app_opt w (py_scanstring s)"
proof (induction s rule: py_scanstring.induct)
  case 1
  show ?case using py_scanstring_ws[OF w] by simp
next
  case (2 c cs)
  note IH = "2.IH"
  show ?case
  proof (cases "c = dquote")
    case True
    then show ?thesis by simp
  next
    case nq: False
    show ?thesis
    proof (cases "c = backslash")
      case False
      show ?thesis
      proof (cases "of_char c < (32::nat)")
        case True
        with nq False show ?thesis by simp
      next
        case ctl: False
        with IH(5)[OF nq False ctl] nq False show ?thesis
          by (simp add: app_opt_prepend)
      qed
    next
      case bs: True
      show ?thesis
      proof (cases cs)
        case Nil
        have "(case w of [] \<Rightarrow> None | esc # r \<Rightarrow> if esc = CHR ''u'' then X esc r
                 else (case BACKSLASH esc of None \<Rightarrow> None | Some ch \<Rightarrow> Y esc r ch)) = None" for X Y
          using w json_ws_not_special by (cases w) auto
        with Nil nq bs show ?thesis by simp
      next
        case cs: (Cons esc r0)
        show ?thesis
        proof (cases "esc = CHR ''u''")
          case False
          show ?thesis
          proof (cases "BACKSLASH esc")
            case None
            with cs nq bs False show ?thesis by simp
          next
            case (Some ch)
            with IH(4)[OF nq bs cs False Some] cs nq bs False show ?thesis
              by (simp add: app_opt_prepend)
          qed
        next
          case u: True
          show ?thesis
          proof (cases "decode_uXXXX r0")
            case None
            with cs nq bs u show ?thesis by (simp add: decode_uXXXX_append[OF w])
          next
            case uni: (Some uni)
            have l4: "4 \<le> length r0" using decode_uXXXX_length[OF uni] .
            then have d4: "drop 4 (r0 @ w) = drop 4 r0 @ w" by simp
            have t2: "take 2 (drop 4 (r0 @ w)) = [backslash, CHR ''u'']
                      \<longleftrightarrow> take 2 (drop 4 r0) = [backslash, CHR ''u'']"
              unfolding d4 using json_ws_not_special
              by (intro take_append_ws[OF w]) auto
            show ?thesis
            proof (cases "0xD800 \<le> uni \<and> uni \<le> 0xDBFF \<and> take 2 (drop 4 r0) = [backslash, CHR ''u'']")
              case False
              then have c1: "(0xD800 \<le> uni \<and> uni \<le> 0xDBFF \<and>
                   take 2 (drop 4 r0) = [backslash, CHR ''u'']) = False" by simp
              with t2 have c2: "(0xD800 \<le> uni \<and> uni \<le> 0xDBFF \<and>
                   take 2 (drop 4 (r0 @ w)) = [backslash, CHR ''u'']) = False" by simp
              have L: "py_scanstring ((c # cs) @ w) = prepend uni (py_scanstring (drop 4 (r0 @ w)))"
                using cs nq bs u uni c2
                by (auto simp add: decode_uXXXX_append[OF w] simp del: drop_append take_append)
              have R: "py_scanstring (c # cs) = prepend uni (py_scanstring (drop 4 r0))"
                using cs nq bs u uni c1 by (auto simp del: drop_append take_append)
              show ?thesis
                unfolding L R d4 using IH(3)[OF nq bs cs u uni False]
                by (simp add: app_opt_prepend)
            next
              case pair: True
              then have c1: "(0xD800 \<le> uni \<and> uni \<le> 0xDBFF \<and>
                   take 2 (drop 4 r0) = [backslash, CHR ''u'']) = True" by simp
              with t2 have c1': "(0xD800 \<le> uni \<and> uni \<le> 0xDBFF \<and>
                   take 2 (drop 4 (r0 @ w)) = [backslash, CHR ''u'']) = True" by simp
              from pair have "length (take 2 (drop 4 r0)) = 2" by simp
              then have l6: "6 \<le> length r0" by simp
              then have d6: "drop 6 (r0 @ w) = drop 6 r0 @ w" by simp
              show ?thesis
              proof (cases "decode_uXXXX (drop 6 r0)")
                case None
                have L: "py_scanstring ((c # cs) @ w) = None"
                  using cs nq bs u uni c1' None d6
                  by (auto simp add: decode_uXXXX_append[OF w] simp del: drop_append take_append)
                have R: "py_scanstring (c # cs) = None"
                  using cs nq bs u uni c1 None by (auto simp del: drop_append take_append)
                show ?thesis unfolding L R by simp
              next
                case uni2: (Some uni2)
                have "10 \<le> length r0" using decode_uXXXX_length[OF uni2] by simp
                then have d10: "drop 10 (r0 @ w) = drop 10 r0 @ w" by simp
                show ?thesis
                proof (cases "0xDC00 \<le> uni2 \<and> uni2 \<le> 0xDFFF")
                  case True
                  then have c3: "(0xDC00 \<le> uni2 \<and> uni2 \<le> 0xDFFF) = True" by simp
                  have L: "py_scanstring ((c # cs) @ w) =
                      prepend (0x10000 + ((uni - 0xD800) * 1024 + (uni2 - 0xDC00)))
                        (py_scanstring (drop 10 (r0 @ w)))"
                    using cs nq bs u uni c1' uni2 c3 d6
                    by (auto simp add: decode_uXXXX_append[OF w] simp del: drop_append take_append)
                  have R: "py_scanstring (c # cs) =
                      prepend (0x10000 + ((uni - 0xD800) * 1024 + (uni2 - 0xDC00)))
                        (py_scanstring (drop 10 r0))"
                    using cs nq bs u uni c1 uni2 c3 by (auto simp del: drop_append take_append)
                  show ?thesis
                    unfolding L R d10 using IH(1)[OF nq bs cs u uni pair uni2 True]
                    by (simp add: app_opt_prepend)
                next
                  case False
                  then have c3: "(0xDC00 \<le> uni2 \<and> uni2 \<le> 0xDFFF) = False" by simp
                  have L: "py_scanstring ((c # cs) @ w) = prepend uni (py_scanstring (drop 4 (r0 @ w)))"
                    using cs nq bs u uni c1' uni2 c3 d6
                    by (auto simp add: decode_uXXXX_append[OF w] simp del: drop_append take_append)
                  have R: "py_scanstring (c # cs) = prepend uni (py_scanstring (drop 4 r0))"
                    using cs nq bs u uni c1 uni2 c3 by (auto simp del: drop_append take_append)
                  show ?thesis
                    unfolding L R d4 using IH(2)[OF nq bs cs u uni pair uni2 False]
                    by (simp add: app_opt_prepend)
                qed
              qed
            qed
          qed
        qed
      qed
    qed
  qed
qed

lemma literal_take_append:
  assumes w: "list_all json_ws w"
  shows "take 4 (s @ w) = ''null'' \<longleftrightarrow> take 4 s = ''null''"
    and "take 4 (s @ w) = ''true'' \<longleftrightarrow> take 4 s = ''true''"
    and "take 5 (s @ w) = ''false'' \<longleftrightarrow> take 5 s = ''false''"
    and "take 3 (s @ w) = ''NaN'' \<longleftrightarrow> take 3 s = ''NaN''"
    and "take 8 (s @ w) = ''Infinity'' \<longleftrightarrow> take 8 s = ''Infinity''"
    and "take 9 (s @ w) = ''-Infinity'' \<longleftrightarrow> take 9 s = ''-Infinity''"
  by (rule take_append_ws[OF w]; simp add: json_ws_def)+

lemma scan_literal_append:
  assumes w: "list_all json_ws w"
  shows "scan_literal (s @ w) = app w (scan_literal s)"
proof -
  have ds: "take 4 s = ''null'' \<Longrightarrow> drop 4 (s @ w) = drop 4 s @ w"
    "take 4 s = ''true'' \<Longrightarrow> drop 4 (s @ w) = drop 4 s @ w"
    "take 5 s = ''false'' \<Longrightarrow> drop 5 (s @ w) = drop 5 s @ w"
    "take 3 s = ''NaN'' \<Longrightarrow> drop 3 (s @ w) = drop 3 s @ w"
    "take 8 s = ''Infinity'' \<Longrightarrow> drop 8 (s @ w) = drop 8 s @ w"
    "take 9 s = ''-Infinity'' \<Longrightarrow> drop 9 (s @ w) = drop 9 s @ w"
    by (rule take_drop_append, assumption, simp)+
  show ?thesis
    unfolding scan_literal_def literal_take_append[OF w] match_number_append[OF w]
    by (auto simp: ds simp del: drop_append split: option.splits)
qed

lemma scan_nil:
  "app w (scan_once n []) = scan_once n []"
  "app w (JSONArray n [] a) = JSONArray n [] a"
proof -
  show 1: "app w (scan_once n []) = scan_once n []" for n by (cases n) simp_all
  show "app w (JSONArray n [] a) = JSONArray n [] a"
  proof (cases n)
    case 0
    then show ?thesis by simp
  next
    case (Suc m)
    then show ?thesis by (cases m) simp_all
  qed
qed

lemma case_list_app:
  "(case x @ w of [] \<Rightarrow> a | c # r \<Rightarrow> f c r) =
     (case x of [] \<Rightarrow> (case w of [] \<Rightarrow> a | c # r \<Rightarrow> f c r) | c # r \<Rightarrow> f c (r @ w))"
  by (cases x) simp_all

lemma scan_append_aux:
  assumes w: "list_all json_ws w"
  shows "(\<forall>s. scan_once n (s @ w) = app w (scan_once n s))
   \<and> (\<forall>s p. JSONObject n (s @ w) p = app w (JSONObject n s p))
   \<and> (\<forall>s a. JSONArray n (s @ w) a = app w (JSONArray n s a))"
proof (induction n)
  case 0
  show ?case by simp
next
  case (Suc n)
  then have so: "\<And>s. scan_once n (s @ w) = app w (scan_once n s)"
    and ob: "\<And>s p. JSONObject n (s @ w) p = app w (JSONObject n s p)"
    and ar: "\<And>s a. JSONArray n (s @ w) a = app w (JSONArray n s a)"
    by blast+
  have sk: "skip_ws (s @ w) = (if skip_ws s = [] then [] else skip_ws s @ w)" for s
    by (rule skip_ws_append[OF w])
  have 3: "JSONArray (Suc n) (s @ w) a = app w (JSONArray (Suc n) s a)" for s a
  proof (cases "scan_once n s")
    case (Done x)
    obtain val s1 where x: "x = (val, s1)" by (cases x)
    show ?thesis
    proof (cases "skip_ws s1")
      case Nil
      with Done x show ?thesis by (simp add: so sk)
    next
      case (Cons nextchar s2)
      show ?thesis
      proof (cases "skip_ws s2 = []")
        case True
        with Done x Cons show ?thesis
          using scan_nil(2)[of w n "a @ [val]"] by (simp add: so sk)
      next
        case False
        with Done x Cons show ?thesis
          using ar[of "skip_ws s2" "a @ [val]"] by (simp add: so sk)
      qed
    qed
  next
    case Failed
    then show ?thesis by (simp add: so)
  next
    case Exhausted
    then show ?thesis by (simp add: so)
  qed
  have 2: "JSONObject (Suc n) (s @ w) p = app w (JSONObject (Suc n) s p)" for s p
  proof (cases "py_scanstring s")
    case None
    then show ?thesis by (simp add: py_scanstring_append[OF w])
  next
    case (Some a)
    then obtain key s1 where k: "py_scanstring s = Some (key, s1)" by (cases a) auto
    show ?thesis
    proof (cases "skip_ws s1")
      case Nil
      with k show ?thesis by (simp add: py_scanstring_append[OF w] sk)
    next
      case (Cons colon s2)
      show ?thesis
      proof (cases "colon = CHR '':''")
        case False
        with k Cons show ?thesis by (simp add: py_scanstring_append[OF w] sk)
      next
        case True
        have v: "scan_once n (skip_ws (s2 @ w)) = app w (scan_once n (skip_ws s2))"
          using so[of "skip_ws s2"] scan_nil(1)[of w n] by (simp add: sk)
        show ?thesis
        proof (cases "scan_once n (skip_ws s2)")
          case (Done x)
          obtain val s3 where x: "x = (val, s3)" by (cases x)
          show ?thesis
          proof (cases "skip_ws s3")
            case Nil
            with k Cons True Done x v show ?thesis
              by (simp add: py_scanstring_append[OF w] sk)
          next
            case c4: (Cons nextchar s4)
            show ?thesis
            proof (cases "skip_ws s4")
              case Nil
              with k Cons True Done x v c4 show ?thesis
                by (simp add: py_scanstring_append[OF w] sk)
            next
              case c5: (Cons q s5)
              with k Cons True Done x v c4 show ?thesis
                by (simp add: py_scanstring_append[OF w] sk ob)
            qed
          qed
        next
          case Failed
          with k Cons True v show ?thesis by (simp add: py_scanstring_append[OF w] sk)
        next
          case Exhausted
          with k Cons True v show ?thesis by (simp add: py_scanstring_append[OF w] sk)
        qed
      qed
    qed
  qed
  have 1: "scan_once (Suc n) (s @ w) = app w (scan_once (Suc n) s)" for s
  proof (cases s)
    case Nil
    have "scan_once (Suc n) w = Failed"
    proof (cases w)
      case Nil
      then show ?thesis by simp
    next
      case (Cons c w')
      then have "json_ws c" using w by simp
      from json_ws_not_special[OF this] Cons scan_literal_append[OF w, of "[]"]
      show ?thesis by (simp add: scan_literal_def match_number_def match_integer_def)
    qed
    with Nil show ?thesis by simp
  next
    case (Cons nextchar r0)
    consider (str) "nextchar = dquote"
      | (obj) "nextchar = CHR ''{''"
      | (arr) "nextchar = CHR ''[''"
      | (lit) "nextchar \<noteq> dquote" "nextchar \<noteq> CHR ''{''" "nextchar \<noteq> CHR ''[''"
      by blast
    then show ?thesis
    proof cases
      case str
      with Cons show ?thesis
        by (cases "py_scanstring r0") (auto simp: py_scanstring_append[OF w])
    next
      case obj
      show ?thesis
      proof (cases "skip_ws r0")
        case Nil
        with Cons obj show ?thesis by (simp add: sk dquote_def)
      next
        case c: (Cons c r1)
        with Cons obj show ?thesis by (simp add: sk dquote_def ob)
      qed
    next
      case arr
      show ?thesis
      proof (cases "skip_ws r0")
        case Nil
        with Cons arr show ?thesis by (simp add: sk dquote_def)
      next
        case c: (Cons c r1)
        with Cons arr show ?thesis
          using ar[of "c # r1" "[]"] by (simp add: sk dquote_def)
      qed
    next
      case lit
      with Cons show ?thesis
        using scan_literal_append[OF w, of s] by simp
    qed
  qed
  show ?case using 1 2 3 by blast
qed

lemma fuel_mono_aux:
  "(\<forall>s. scan_once n s \<noteq> Exhausted \<longrightarrow> scan_once (n + k) s = scan_once n s)
   \<and> (\<forall>s p. JSONObject n s p \<noteq> Exhausted \<longrightarrow> JSONObject (n + k) s p = JSONObject n s p)
   \<and> (\<forall>s a. JSONArray n s a \<noteq> Exhausted \<longrightarrow> JSONArray (n + k) s a = JSONArray n s a)"
proof (induction n)
  case 0
  show ?case by simp
next
  case (Suc n)
  then have so: "\<And>s. scan_once n s \<noteq> Exhausted \<Longrightarrow> scan_once (n + k) s = scan_once n s"
    and ob: "\<And>s p. JSONObject n s p \<noteq> Exhausted \<Longrightarrow> JSONObject (n + k) s p = JSONObject n s p"
    and ar: "\<And>s a. JSONArray n s a \<noteq> Exhausted \<Longrightarrow> JSONArray (n + k) s a = JSONArray n s a"
    by blast+
  have 3: "JSONArray (Suc n + k) s a = JSONArray (Suc n) s a"
    if ne: "JSONArray (Suc n) s a \<noteq> Exhausted" for s a
  proof (cases "scan_once n s")
    case (Done x)
    obtain val s1 where x: "x = (val, s1)" by (cases x)
    have e: "scan_once (n + k) s = Done (val, s1)" using so[of s] Done x by simp
    show ?thesis
    proof (cases "skip_ws s1")
      case Nil
      with Done x e show ?thesis by simp
    next
      case (Cons nextchar s2)
      show ?thesis
      proof (cases "nextchar = CHR '',''")
        case True
        with ne Done x Cons have "JSONArray n (skip_ws s2) (a @ [val]) \<noteq> Exhausted" by simp
        from ar[OF this] Done x e Cons show ?thesis by simp
      next
        case False
        with Done x e Cons show ?thesis by simp
      qed
    qed
  next
    case Failed
    with so[of s] show ?thesis by simp
  next
    case Exhausted
    with ne show ?thesis by simp
  qed
  have 2: "JSONObject (Suc n + k) s p = JSONObject (Suc n) s p"
    if ne: "JSONObject (Suc n) s p \<noteq> Exhausted" for s p
  proof (cases "py_scanstring s")
    case None
    then show ?thesis by simp
  next
    case (Some a)
    then obtain key s1 where k: "py_scanstring s = Some (key, s1)" by (cases a) auto
    show ?thesis
    proof (cases "skip_ws s1")
      case Nil
      with k show ?thesis by simp
    next
      case (Cons colon s2)
      show ?thesis
      proof (cases "colon = CHR '':''")
        case False
        with k Cons show ?thesis by simp
      next
        case True
        show ?thesis
        proof (cases "scan_once n (skip_ws s2)")
          case (Done x)
          obtain val s3 where x: "x = (val, s3)" by (cases x)
          have e: "scan_once (n + k) (skip_ws s2) = Done (val, s3)"
            using so[of "skip_ws s2"] Done x by simp
          show ?thesis
          proof (cases "skip_ws s3")
            case Nil
            with k Cons True Done x e show ?thesis by simp
          next
            case c4: (Cons nextchar s4)
            show ?thesis
            proof (cases "nextchar = CHR '',''")
              case False
              with k Cons True Done x e c4 show ?thesis by simp
            next
              case comma: True
              show ?thesis
              proof (cases "skip_ws s4")
                case Nil
                with k Cons True Done x e c4 comma show ?thesis by simp
              next
                case c5: (Cons q s5)
                show ?thesis
                proof (cases "q = dquote")
                  case False
                  with k Cons True Done x e c4 comma c5 show ?thesis by simp
                next
                  case q: True
                  with ne k Cons True Done x c4 comma c5
                  have "JSONObject n s5 (p @ [(key, val)]) \<noteq> Exhausted" by simp
                  from ob[OF this] k Cons True Done x e c4 comma c5 q show ?thesis by simp
                qed
              qed
            qed
          qed
        next
          case Failed
          with so[of "skip_ws s2"] k Cons True show ?thesis by simp
        next
          case Exhausted
          with ne k Cons True show ?thesis by simp
        qed
      qed
    qed
  qed
  have 1: "scan_once (Suc n + k) s = scan_once (Suc n) s"
    if ne: "scan_once (Suc n) s \<noteq> Exhausted" for s
  proof (cases s)
    case Nil
    then show ?thesis by simp
  next
    case (Cons nextchar r0)
    consider (str) "nextchar = dquote"
      | (obj) "nextchar = CHR ''{''"
      | (arr) "nextchar = CHR ''[''"
      | (lit) "nextchar \<noteq> dquote" "nextchar \<noteq> CHR ''{''" "nextchar \<noteq> CHR ''[''"
      by blast
    then show ?thesis
    proof cases
      case str
      with Cons show ?thesis by simp
    next
      case obj
      show ?thesis
      proof (cases "skip_ws r0")
        case Nil
        with Cons obj show ?thesis by (simp add: dquote_def)
      next
        case c: (Cons c r1)
        show ?thesis
        proof (cases "c = dquote")
          case True
          with ne Cons obj c have "JSONObject n r1 [] \<noteq> Exhausted" by (simp add: dquote_def)
          from ob[OF this] Cons obj c True show ?thesis by (simp add: dquote_def)
        next
          case False
          with Cons obj c show ?thesis by (simp add: dquote_def)
        qed
      qed
    next
      case arr
      show ?thesis
      proof (cases "skip_ws r0")
        case Nil
        with Cons arr show ?thesis by (simp add: dquote_def)
      next
        case c: (Cons c r1)
        show ?thesis
        proof (cases "c = CHR '']''")
          case True
          with Cons arr c show ?thesis by (simp add: dquote_def)
        next
          case False
          with ne Cons arr c have "JSONArray n (c # r1) [] \<noteq> Exhausted" by (simp add: dquote_def)
          from ar[OF this] Cons arr c False show ?thesis by (simp add: dquote_def)
        qed
      qed
    next
      case lit
      with Cons show ?thesis by simp
    qed
  qed
  show ?case using 1 2 3 by blast
qed

lemma scan_once_fuel:
  assumes "2 * length s + 1 \<le> n"
  shows "scan_once n s = scan_once (2 * length s + 1) s"
proof -
  have ne: "scan_once (2 * length s + 1) s \<noteq> Exhausted"
    using fuel_enough_aux[THEN conjunct1, rule_format, of s "2 * length s + 1"] by simp
  obtain k where "n = (2 * length s + 1) + k" using assms le_Suc_ex by blast
  with fuel_mono_aux[THEN conjunct1, rule_format, OF ne, of k] show ?thesis by simp
qed

lemma greedy_to_brace_last:
  "CHR ''}'' \<notin> set b \<Longrightarrow> greedy_to_brace (mid @ CHR ''}'' # b) = Some (mid @ ''}'')"
  by (auto simp: greedy_to_brace_def dropWhile_append3 Let_def)

lemma re_search_span:
  "CHR ''{'' \<notin> set a \<Longrightarrow> CHR ''}'' \<notin> set b \<Longrightarrow>
     re_search (a @ CHR ''{'' # mid @ CHR ''}'' # b) = Some (CHR ''{'' # mid @ ''}'')"
  by (induction a) (auto simp: greedy_to_brace_last)

lemma greedy_to_brace_None: "greedy_to_brace cs = None \<longleftrightarrow> CHR ''}'' \<notin> set cs"
  by (auto simp: greedy_to_brace_def Let_def)

lemma re_search_found: "re_search (a @ CHR ''{'' # mid @ CHR ''}'' # b) \<noteq> None"
proof (induction a)
  case Nil
  have "greedy_to_brace (mid @ CHR ''}'' # b) \<noteq> None"
    by (simp add: greedy_to_brace_None)
  then show ?case by (auto split: option.splits)
next
  case (Cons c a)
  then show ?case by (auto split: option.splits)
qed

lemma re_search_None:
  "re_search tx = None \<longleftrightarrow> (\<nexists>a mid b. tx = a @ CHR ''{'' # mid @ CHR ''}'' # b)"
proof
  assume "re_search tx = None"
  then show "\<nexists>a mid b. tx = a @ CHR ''{'' # mid @ CHR ''}'' # b"
    using re_search_found by blast
next
  show "\<nexists>a mid b. tx = a @ CHR ''{'' # mid @ CHR ''}'' # b \<Longrightarrow> re_search tx = None"
  proof (induction tx)
    case Nil
    then show ?case by simp
  next
    case (Cons c cs)
    have 1: "\<nexists>a mid b. cs = a @ CHR ''{'' # mid @ CHR ''}'' # b"
    proof
      assume "\<exists>a mid b. cs = a @ CHR ''{'' # mid @ CHR ''}'' # b"
      then obtain a mid b where "cs = a @ CHR ''{'' # mid @ CHR ''}'' # b" by blast
      then have "c # cs = (c # a) @ CHR ''{'' # mid @ CHR ''}'' # b" by simp
      with Cons.prems show False by blast
    qed
    have 2: "CHR ''}'' \<notin> set cs" if c: "c = CHR ''{''"
    proof
      assume "CHR ''}'' \<in> set cs"
      then obtain m b where "cs = m @ CHR ''}'' # b" by (meson split_list)
      with c have "c # cs = [] @ CHR ''{'' # m @ CHR ''}'' # b" by simp
      with Cons.prems show False by blast
    qed
    have "greedy_to_brace cs = None" if "c = CHR ''{''"
      using 2[OF that] by (simp add: greedy_to_brace_None)
    with Cons.IH[OF 1] show ?case by simp
  qed
qed

lemma json_ws_isspace: "json_ws c \<Longrightarrow> py_isspace c"
  using json_ws_cases[of c] by (auto simp: py_isspace_def)

lemma py_isspace_not_brace: "py_isspace c \<Longrightarrow> c \<noteq> CHR ''{'' \<and> c \<noteq> CHR ''}''"
  by (auto simp: py_isspace_def)

lemma strip_decomp:
  "\<exists>a b. x = a @ strip x @ b \<and> list_all py_isspace a \<and> list_all py_isspace b"
proof -
  let ?y = "dropWhile py_isspace x"
  have 1: "x = takeWhile py_isspace x @ ?y" by simp
  have "?y = rev (dropWhile py_isspace (rev ?y)) @ rev (takeWhile py_isspace (rev ?y))"
    by (metis rev_append rev_rev_ident takeWhile_dropWhile_id)
  then have "x = takeWhile py_isspace x @ strip x @ rev (takeWhile py_isspace (rev ?y))"
    using 1 by (simp add: strip_def)
  moreover have "list_all py_isspace (takeWhile py_isspace x)"
    by (simp add: list_all_iff) (meson set_takeWhileD)
  moreover have "list_all py_isspace (rev (takeWhile py_isspace (rev ?y)))"
    by (simp add: list_all_iff) (meson set_takeWhileD)
  ultimately show ?thesis by blast
qed

lemma strip_ends:
  assumes "strip x \<noteq> []"
  shows "\<not> py_isspace (hd (strip x))" and "\<not> py_isspace (last (strip x))"
proof -
  let ?y = "dropWhile py_isspace x"
  let ?z = "dropWhile py_isspace (rev ?y)"
  have z: "?z \<noteq> []" using assms by (simp add: strip_def)
  then have "\<not> py_isspace (hd ?z)" by (rule hd_dropWhile)
  then show "\<not> py_isspace (last (strip x))"
    using z by (simp add: strip_def last_rev)
  have y: "?y \<noteq> []"
    using z by (metis dropWhile.simps(1) rev.simps(1))
  then have h: "\<not> py_isspace (hd ?y)" by (rule hd_dropWhile)
  have "?y = rev ?z @ rev (takeWhile py_isspace (rev ?y))"
    by (metis rev_append rev_rev_ident takeWhile_dropWhile_id)
  then have "hd ?y = hd (rev ?z)" using z by (metis hd_append2 rev_is_Nil_conv)
  with h show "\<not> py_isspace (hd (strip x))" by (simp add: strip_def)
qed

lemma removeprefix_cases: "removeprefix x p = x \<or> x = p @ removeprefix x p"
  by (auto simp: removeprefix_def startswith_def) (metis append_take_drop_id)

lemma removesuffix_cases: "removesuffix x p = x \<or> x = removesuffix x p @ p"
  by (auto simp: removesuffix_def endswith_def) (metis append_take_drop_id)

lemma cleaned_text_decomp:
  "\<exists>a b. t = a @ cleaned_text t @ b \<and> CHR ''{'' \<notin> set a \<and> CHR ''}'' \<notin> set b"
proof -
  let ?s1 = "strip t"
  let ?s2 = "removeprefix ?s1 ''```json''"
  let ?s3 = "removesuffix ?s2 ''```''"
  obtain a1 b1 where 1: "t = a1 @ ?s1 @ b1" "list_all py_isspace a1" "list_all py_isspace b1"
    using strip_decomp[of t] by blast
  obtain p where 2: "?s1 = p @ ?s2" "p = [] \<or> p = ''```json''"
    using removeprefix_cases[of ?s1 "''```json''"] by (metis append_Nil)
  obtain q where 3: "?s2 = ?s3 @ q" "q = [] \<or> q = ''```''"
    using removesuffix_cases[of ?s2 "''```''"] by (metis append_Nil2)
  obtain a2 b2 where 4: "?s3 = a2 @ strip ?s3 @ b2" "list_all py_isspace a2" "list_all py_isspace b2"
    using strip_decomp[of ?s3] by blast
  have "t = (a1 @ p @ a2) @ cleaned_text t @ (b2 @ q @ b1)"
    using 1(1) 2(1) 3(1) 4(1) by (simp add: cleaned_text_def) (metis append.assoc)
  moreover have "CHR ''{'' \<notin> set (a1 @ p @ a2)"
    using 1(2) 2(2) 4(2) py_isspace_not_brace by (auto simp: list_all_iff)
  moreover have "CHR ''}'' \<notin> set (b2 @ q @ b1)"
    using 1(3) 3(2) 4(3) py_isspace_not_brace by (auto simp: list_all_iff)
  ultimately show ?thesis by blast
qed

lemma cleaned_text_ends:
  assumes "cleaned_text t \<noteq> []"
  shows "\<not> py_isspace (hd (cleaned_text t))" and "\<not> py_isspace (last (cleaned_text t))"
  using assms strip_ends unfolding cleaned_text_def by blast+

lemma skip_ws_id: "s = [] \<or> \<not> json_ws (hd s) \<Longrightarrow> skip_ws s = s"
  by (cases s) (auto simp: skip_ws_def)

lemma skip_ws_Nil_ws: "skip_ws r = [] \<Longrightarrow> list_all json_ws r"
  by (simp add: skip_ws_def list_all_iff)

lemma brace_not_ws: "\<not> json_ws (CHR ''{'')" "\<not> json_ws (CHR ''}'')"
  by (simp_all add: json_ws_def)

text \<open>A text that parses to an object is the object's text between white space.\<close>

lemma strict_parse_object_core:
  assumes "strict_parse j = Some (JObject d)"
  shows "\<exists>w1 mid w2. j = w1 @ CHR ''{'' # mid @ CHR ''}'' # w2
           \<and> list_all json_ws w1 \<and> list_all json_ws w2
           \<and> strict_parse (CHR ''{'' # mid @ ''}'') = Some (JObject d)"
proof -
  let ?n = "2 * length j + 1"
  from assms have dec: "decode ?n j = Done (JObject d)"
    by (auto simp: strict_parse_def split: outcome.splits)
  then obtain r where sc: "scan_once ?n (skip_ws j) = Done (JObject d, r)" and r: "skip_ws r = []"
    by (auto simp: decode_def split: outcome.splits prod.splits if_splits)
  let ?s1 = "skip_ws j"
  from scan_once_shorter[OF sc]
  have hd: "hd ?s1 = CHR ''{''" and suf: "suffix (CHR ''}'' # r) ?s1" by simp_all
  from suf obtain c where c: "?s1 = c @ CHR ''}'' # r" by (auto simp: suffix_def)
  with hd have "c \<noteq> []" by (cases c) auto
  with c hd obtain mid where mid: "c = CHR ''{'' # mid" by (cases c) auto
  let ?core = "CHR ''{'' # mid @ ''}''"
  have s1: "?s1 = ?core @ r" using c mid by simp
  have wr: "list_all json_ws r" using r by (rule skip_ws_Nil_ws)
  have j: "j = takeWhile json_ws j @ ?s1" by (simp add: skip_ws_def)
  have w1: "list_all json_ws (takeWhile json_ws j)"
    by (simp add: list_all_iff) (meson set_takeWhileD)
  have "app r (scan_once ?n ?core) = Done (JObject d, r)"
    using scan_append_aux[OF wr, THEN conjunct1, rule_format, of ?n ?core] sc s1 by simp
  then have core_n: "scan_once ?n ?core = Done (JObject d, [])"
    by (cases "scan_once ?n ?core") (auto simp: app_def)
  have "length ?core \<le> length j"
    using s1 skip_ws_length[of j] by (metis length_append le_add1 le_trans)
  then have "2 * length ?core + 1 \<le> ?n" by simp
  from scan_once_fuel[OF this] core_n
  have "scan_once (2 * length ?core + 1) ?core = Done (JObject d, [])" by simp
  moreover have "skip_ws ?core = ?core" by (simp add: skip_ws_def brace_not_ws)
  ultimately have "strict_parse ?core = Some (JObject d)"
    by (simp add: strict_parse_def decode_def skip_ws_def)
  with j s1 w1 wr show ?thesis
    by (metis append_Cons append_assoc append_Nil)
qed

section \<open>The report rows of the evaluator\<close>

lemma mismatch_rows_objects:
  "mismatch_rows base (map JObject entries) =
     (map (\<lambda>e. [Str base, Str ''Mismatch'',
                 Val (dict_get e (ustr ''field'') (JString (ustr ''N/A''))),
                 Val (dict_get e (ustr ''expected'') (JString (ustr ''N/A''))),
                 Val (dict_get e (ustr ''actual'') (JString (ustr ''N/A'')))]) entries, None)"
  by (induction entries) simp_all

lemma ustr_inj: "ustr a = ustr b \<longleftrightarrow> a = b"
  unfolding ustr_def by (metis (no_types) list.inj_map_strong of_char_eq_iff)

lemma Str_inj: "Str a = Str b \<longleftrightarrow> a = b"
  by (simp add: Str_def ustr_inj)

lemma fenced_mismatch_verdict_parsed:
  "json_loads (evaluator_python (answering fenced_mismatch_verdict))
     (cleaned_text fenced_mismatch_verdict) =
     Inr (JObject
       [(ustr ''overall_status'', JString (ustr ''Mismatch'')),
        (ustr ''mismatches'',
         JArray (map JObject
           [[(ustr ''field'', JString (ustr ''total'')),
             (ustr ''expected'', JString (ustr ''$100.00'')),
             (ustr ''actual'', JString (ustr ''100.00''))],
            [(ustr ''field'', JString (ustr ''tax''))]]))])"
  by code_simp

lemma pass_verdict_parsed:
  "json_loads (evaluator_python (answering pass_verdict)) (cleaned_text pass_verdict) =
     Inr (JObject
       [(ustr ''overall_status'', JString (ustr ''Pass'')),
        (ustr ''mismatches'', JArray [])])"
  by code_simp

lemma degraded_verdict_parsed:
  "json_loads (evaluator_python (answering degraded_verdict)) (cleaned_text degraded_verdict) =
     Inr (JObject
       [(ustr ''overall_status'', JString (ustr ''Mismatch'')),
        (ustr ''mismatches'', JArray [])])"
  by code_simp

lemma unknown_status_verdict_parsed:
  "json_loads (evaluator_python (answering unknown_status_verdict))
     (cleaned_text unknown_status_verdict) =
     Inr (JObject [(ustr ''overall_status'', JString (ustr ''Fail''))])"
  by code_simp

lemma answering_verdict: "verdict (answering t) c = Inr t"
  by (simp add: answering_def)

text \<open>
  A verdict that \<open>json.loads\<close> gives up on with an exception other than
  \<open>JSONDecodeError\<close> gets the row of the second handler, whatever its status says: a
  Pass verdict with an integer of 4301 digits, and one with 1000 nested arrays.
\<close>

lemma limit_error_row:
  assumes "verdict env c = Inr res_text"
    and "json_loads (evaluator_python env) (cleaned_text res_text) = Inl e"
    and "e \<noteq> JSONDecodeError"
  shows "results (ask_verdict env base c st) =
           results st @ [[Str base, Str ''Error'', Str ''API or other Error'', ExcText e, Str ''-'']]"
  using assms by (simp add: ask_verdict_def append_rows_def eprint_def Let_def)

lemma strip_braces: "strip (CHR ''{'' # mid @ ''}'') = CHR ''{'' # mid @ ''}''"
  by (simp add: strip_def py_isspace_def)

lemma cleaned_text_braces: "cleaned_text (CHR ''{'' # mid @ ''}'') = CHR ''{'' # mid @ ''}''"
proof -
  let ?s = "CHR ''{'' # mid @ ''}''"
  have 1: "removeprefix ?s ''```json'' = ?s"
    by (simp add: removeprefix_def startswith_def)
  have "\<not> endswith ?s ''```''"
  proof
    assume "endswith ?s ''```''"
    then have d: "drop (length ?s - 3) ?s = ''```''" by (simp add: endswith_def)
    have "last (drop (length ?s - 3) ?s) = last ?s" by (rule last_drop) simp
    with d show False by simp
  qed
  then have 2: "removesuffix ?s ''```'' = ?s"
    by (simp add: removesuffix_def)
  show ?thesis
    unfolding cleaned_text_def strip_braces 1 2 ..
qed

lemma big_pass_raises:
  "json_loads (evaluator_python (answering big_pass)) (cleaned_text big_pass) = Inl ValueError"
proof -
  have "\<exists>mid. big_pass = CHR ''{'' # mid @ ''}''"
    by (simp add: big_pass_def)
  then have c: "cleaned_text big_pass = big_pass"
    using cleaned_text_braces by metis
  have "length (filter is_digit big_pass) = 4301"
    by (simp add: big_pass_def is_digit_def)
  then show ?thesis
    by (simp add: c json_loads_def answering_def cautious_python_def)
qed

lemma deep_pass_raises:
  "json_loads (evaluator_python (answering deep_pass)) (cleaned_text deep_pass) = Inl RecursionError"
proof -
  have "\<exists>mid. deep_pass = CHR ''{'' # mid @ ''}''"
    by (simp add: deep_pass_def)
  then have c: "cleaned_text deep_pass = deep_pass"
    using cleaned_text_braces by metis
  have d: "filter is_digit deep_pass = []"
    by (simp add: deep_pass_def is_digit_def)
  have "length (filter (\<lambda>c. c = CHR ''['' \<or> c = CHR ''{'') deep_pass) = 1002"
    by (simp add: deep_pass_def)
  then show ?thesis
    by (simp add: c d json_loads_def answering_def cautious_python_def)
qed

lemma big_pass_row:
  "results (ask_verdict (answering big_pass) ''inv1'' inv1_comparison empty_report) =
     [[Str ''inv1'', Str ''Error'', Str ''API or other Error'', ExcText ValueError, Str ''-'']]"
  using limit_error_row [OF answering_verdict big_pass_raises, of "''inv1''" inv1_comparison
      empty_report]
  by (simp add: empty_report_def)

lemma deep_pass_row:
  "results (ask_verdict (answering deep_pass) ''inv1'' inv1_comparison empty_report) =
     [[Str ''inv1'', Str ''Error'', Str ''API or other Error'', ExcText RecursionError, Str ''-'']]"
  using limit_error_row [OF answering_verdict deep_pass_raises, of "''inv1''" inv1_comparison
      empty_report]
  by (simp add: empty_report_def)

text \<open>
  Claim C5. When the model's verdict is recovered as an object whose \<open>overall_status\<close> is
  \<open>"Mismatch"\<close> and whose \<open>mismatches\<close> is a list of N \<open>\<ge>\<close> 1 objects, exactly N rows are
  appended to the report, in the order of the list, each with the base name of the file, the
  status \<open>"Mismatch"\<close>, and the entry's \<open>field\<close>, \<open>expected\<close> and \<open>actual\<close> values
  (\<open>"N/A"\<close> for a key the entry does not have). When \<open>overall_status\<close> is \<open>"Pass"\<close>, exactly
  one row is appended, with \<open>"-"\<close> in the Field, Expected and Actual columns. The verdict is
  recovered when \<open>json.loads\<close> returns it: a text on which \<open>json.loads\<close> raises, whatever
  the exception, is outside this statement.
\<close>

theorem itemized_mismatch_rows:
  assumes "verdict env c = Inr res_text"
    and "json_loads (evaluator_python env) (cleaned_text res_text) = Inr (JObject d)"
  shows "(map_of d (ustr ''overall_status'') = Some (JString (ustr ''Mismatch'')) \<and>
          map_of d (ustr ''mismatches'') = Some (JArray (map JObject entries)) \<and> entries \<noteq> []
          \<longrightarrow> results (ask_verdict env base c st) =
                results st @
                map (\<lambda>e. [Str base, Str ''Mismatch'',
                           Val (dict_get e (ustr ''field'') (JString (ustr ''N/A''))),
                           Val (dict_get e (ustr ''expected'') (JString (ustr ''N/A''))),
                           Val (dict_get e (ustr ''actual'') (JString (ustr ''N/A'')))]) entries
              \<and> length (results (ask_verdict env base c st)) = length (results st) + length entries)
       \<and> (map_of d (ustr ''overall_status'') = Some (JString (ustr ''Pass''))
          \<longrightarrow> results (ask_verdict env base c st) =
                results st @ [[Str base, Str ''Pass'', Str ''-'', Str ''-'', Str ''-'']])"
  using assms
  by (auto simp: ask_verdict_def verdict_rows_def dict_get_def append_rows_def
      mismatch_rows_objects ustr_inj Let_def)

theorem itemized_mismatch_rows_witness:
  "verdict (answering fenced_mismatch_verdict) inv1_comparison = Inr fenced_mismatch_verdict
   \<and> results (ask_verdict (answering fenced_mismatch_verdict) ''inv1'' inv1_comparison empty_report) =
     [[Str ''inv1'', Str ''Mismatch'', Str ''total'', Str ''$100.00'', Str ''100.00''],
      [Str ''inv1'', Str ''Mismatch'', Str ''tax'', Str ''N/A'', Str ''N/A'']]
   \<and> length (results (ask_verdict (answering fenced_mismatch_verdict) ''inv1'' inv1_comparison
        empty_report)) = 2
   \<and> results (ask_verdict (answering pass_verdict) ''inv1'' inv1_comparison empty_report) =
     [[Str ''inv1'', Str ''Pass'', Str ''-'', Str ''-'', Str ''-'']]"
  using itemized_mismatch_rows [where c = inv1_comparison and base = "''inv1''"
      and st = empty_report and entries =
      "[[(ustr ''field'', JString (ustr ''total'')),
         (ustr ''expected'', JString (ustr ''$100.00'')),
         (ustr ''actual'', JString (ustr ''100.00''))],
        [(ustr ''field'', JString (ustr ''tax''))]]",
      OF answering_verdict fenced_mismatch_verdict_parsed]
    itemized_mismatch_rows [where c = inv1_comparison and base = "''inv1''"
      and st = empty_report and entries = "[]",
      OF answering_verdict pass_verdict_parsed]
  by (simp add: empty_report_def dict_get_def ustr_inj Str_def answering_verdict)

text \<open>
  Claim C6. When the recovered verdict has \<open>overall_status\<close> \<open>"Mismatch"\<close> and its
  \<open>mismatches\<close> is an empty list (or absent, or any other false value), exactly one row is
  appended: it has the status \<open>"Mismatch"\<close>, the field \<open>"Unknown"\<close> and the text that the
  model reported a mismatch without details. No Pass row is appended.
\<close>

theorem degraded_mismatch_row:
  assumes "verdict env c = Inr res_text"
    and "json_loads (evaluator_python env) (cleaned_text res_text) = Inr (JObject d)"
    and "map_of d (ustr ''overall_status'') = Some (JString (ustr ''Mismatch''))"
    and "\<not> py_truthy (dict_get d (ustr ''mismatches'') (JArray []))"
  shows "results (ask_verdict env base c st) =
           results st @ [[Str base, Str ''Mismatch'', Str ''Unknown'',
                          Str ''Gemini reported a mismatch but did not provide details'', Str ''-'']]
         \<and> [Str base, Str ''Pass'', Str ''-'', Str ''-'', Str ''-'']
             \<notin> set (drop (length (results st)) (results (ask_verdict env base c st)))"
  using assms
  by (auto simp: ask_verdict_def verdict_rows_def dict_get_def append_rows_def ustr_inj Str_inj
      Let_def)

theorem degraded_mismatch_row_witness:
  "json_loads (evaluator_python (answering degraded_verdict)) (cleaned_text degraded_verdict) =
     Inr (JObject [(ustr ''overall_status'', JString (ustr ''Mismatch'')),
                   (ustr ''mismatches'', JArray [])])
   \<and> results (ask_verdict (answering degraded_verdict) ''inv1'' inv1_comparison empty_report) =
       [[Str ''inv1'', Str ''Mismatch'', Str ''Unknown'',
         Str ''Gemini reported a mismatch but did not provide details'', Str ''-'']]"
  using degraded_mismatch_row [where c = inv1_comparison and base = "''inv1''"
      and st = empty_report, OF answering_verdict degraded_verdict_parsed]
  by (simp add: empty_report_def dict_get_def ustr_inj degraded_verdict_parsed)

text \<open>
  Claim C7. When the recovered verdict is an object whose \<open>overall_status\<close> (or, when the
  key is absent, the default \<open>"Parse Error"\<close>) is neither \<open>"Pass"\<close> nor \<open>"Mismatch"\<close>,
  exactly one row is appended: an \<open>"Error"\<close> row with the field \<open>"Invalid Status"\<close> whose
  Expected cell is the text \<open>"Gemini returned status: "\<close> followed by that status.
\<close>

theorem invalid_status_row:
  assumes "verdict env c = Inr res_text"
    and "json_loads (evaluator_python env) (cleaned_text res_text) = Inr (JObject d)"
    and "status = dict_get d (ustr ''overall_status'') (JString (ustr ''Parse Error''))"
    and "status \<noteq> JString (ustr ''Pass'')"
    and "status \<noteq> JString (ustr ''Mismatch'')"
  shows "results (ask_verdict env base c st) =
           results st @
           [[Str base, Str ''Error'', Str ''Invalid Status'', StatusText status, Str ''-'']]"
  using assms
  by (auto simp: ask_verdict_def verdict_rows_def append_rows_def Let_def)

theorem invalid_status_row_witness:
  "json_loads (evaluator_python (answering unknown_status_verdict))
     (cleaned_text unknown_status_verdict) =
     Inr (JObject [(ustr ''overall_status'', JString (ustr ''Fail''))])
   \<and> JString (ustr ''Fail'') \<noteq> JString (ustr ''Pass'')
   \<and> JString (ustr ''Fail'') \<noteq> JString (ustr ''Mismatch'')
   \<and> results (ask_verdict (answering unknown_status_verdict) ''inv1'' inv1_comparison empty_report) =
       [[Str ''inv1'', Str ''Error'', Str ''Invalid Status'',
         StatusText (JString (ustr ''Fail'')), Str ''-'']]"
  using invalid_status_row [where c = inv1_comparison and base = "''inv1''"
      and st = empty_report and status = "JString (ustr ''Fail'')",
      OF answering_verdict unknown_status_verdict_parsed]
  by (simp add: empty_report_def dict_get_def ustr_inj unknown_status_verdict_parsed)

text \<open>
  Claim C8. For a ground-truth file (a name ending in \<open>.json\<close>) with no file of the same
  name in \<open>gemini_output\<close>, the evaluator appends exactly one row, with the status
  \<open>"Missing Output"\<close> and \<open>"-"\<close> in the other cells, raises no exception, does not call
  the model, and goes on with the remaining files.
\<close>

theorem missing_output_row:
  assumes "endswith file ''.json''"
    and "files env (path_join ''gemini_output'' file) = None"
  shows "\<exists>st'. evaluate_file env file st = Inr st'
           \<and> results st' =
               results st @
               [[Str (fst (splitext file)), Str ''Missing Output'', Str ''-'', Str ''-'', Str ''-'']]
           \<and> model_calls st' = model_calls st
           \<and> evaluate_files env (file # rest) st = evaluate_files env rest st'"
  using assms
  by (simp add: evaluate_file_def append_rows_def eprint_def Let_def)

theorem missing_output_row_witness:
  "endswith ''inv1.json'' ''.json''
   \<and> files (answering pass_verdict) (path_join ''gemini_output'' ''inv1.json'') = None
   \<and> (\<exists>st'. evaluate_file (answering pass_verdict) ''inv1.json'' empty_report = Inr st'
          \<and> results st' =
              [[Str (fst (splitext ''inv1.json'')), Str ''Missing Output'', Str ''-'', Str ''-'',
                Str ''-'']]
          \<and> model_calls st' = []
          \<and> evaluate_files (answering pass_verdict) [''inv1.json''] empty_report = Inr st')"
proof -
  have 1: "endswith ''inv1.json'' ''.json''" by (simp add: endswith_def)
  have 2: "files (answering pass_verdict) (path_join ''gemini_output'' ''inv1.json'') = None"
    by (simp add: answering_def)
  show ?thesis
    using missing_output_row [OF 1 2, of empty_report "[]"] 1 2
    by (simp add: empty_report_def)
qed

section \<open>JSON recovery\<close>

lemma json_loads_Inr:
  "json_loads py s = Inr v \<longleftrightarrow> limit_error py s = None \<and> strict_parse s = Some v"
  by (auto simp: json_loads_def split: option.splits)

lemma re_search_braces: "re_search (CHR ''{'' # mid @ ''}'') = Some (CHR ''{'' # mid @ ''}'')"
  using re_search_span[of "[]" "[]" mid] by simp

lemma big_pass_not_recovered: "extract_json cautious_python big_pass = Inl ValueError"
proof -
  obtain mid where m: "big_pass = CHR ''{'' # mid @ ''}''"
    by (simp add: big_pass_def)
  have "length (filter is_digit big_pass) = 4301"
    by (simp add: big_pass_def is_digit_def)
  then have "json_loads cautious_python big_pass = Inl ValueError"
    by (simp add: json_loads_def cautious_python_def)
  then show ?thesis
    using re_search_braces[of mid] by (simp add: extract_json_def m)
qed

text \<open>
  Claim C1, as stated: \<open>extract_json\<close> returns a failure value instead of raising
  whenever the span does not parse, and the value returned for a text without a brace span
  differs from the value returned for a brace span that is not JSON. Neither holds: both
  values are \<open>None\<close> (\<open>"{invalid json"\<close>, the example of the specification, has no
  closing brace and so has no span at all), and a span on which \<open>json.loads\<close> raises
  another exception than \<open>JSONDecodeError\<close>, here the \<open>ValueError\<close> for an integer of
  4301 digits, is not caught in \<open>extract_json\<close>.
\<close>

theorem failure_kinds_same_value:
  "re_search ''no json here'' = None
   \<and> extract_json cautious_python ''no json here'' = Inr ([Msg_no_valid_json_block], None)
   \<and> re_search ''{invalid json}'' = Some ''{invalid json}''
   \<and> json_loads cautious_python ''{invalid json}'' = Inl JSONDecodeError
   \<and> extract_json cautious_python ''{invalid json}'' = Inr ([Msg_still_failed_to_decode], None)
   \<and> re_search ''{invalid json'' = None
   \<and> extract_json cautious_python big_pass = Inl ValueError"
proof -
  have "re_search ''no json here'' = None
   \<and> extract_json cautious_python ''no json here'' = Inr ([Msg_no_valid_json_block], None)
   \<and> re_search ''{invalid json}'' = Some ''{invalid json}''
   \<and> json_loads cautious_python ''{invalid json}'' = Inl JSONDecodeError
   \<and> extract_json cautious_python ''{invalid json}'' = Inr ([Msg_still_failed_to_decode], None)
   \<and> re_search ''{invalid json'' = None"
    by code_simp
  with big_pass_not_recovered show ?thesis by simp
qed

text \<open>
  Claim C1, amended. For every response text, \<open>extract_json\<close> returns \<open>None\<close> without
  raising when the text has no \<open>{...}\<close> span and when \<open>json.loads\<close> rejects the span
  with a \<open>JSONDecodeError\<close>, and it returns \<open>None\<close> in no other case. The two failures
  return the same value and differ only in the line that is printed. Another exception of
  \<open>json.loads\<close> on the span leaves \<open>extract_json\<close>.
\<close>

theorem recovery_failure_returns_None:
  "(re_search response = None
      \<longrightarrow> extract_json py response = Inr ([Msg_no_valid_json_block], None))
   \<and> (\<forall>span. re_search response = Some span \<and> json_loads py span = Inl JSONDecodeError
        \<longrightarrow> extract_json py response = Inr ([Msg_still_failed_to_decode], None))
   \<and> (\<forall>span e. re_search response = Some span \<and> json_loads py span = Inl e
          \<and> e \<noteq> JSONDecodeError
        \<longrightarrow> extract_json py response = Inl e)
   \<and> ((\<exists>ms. extract_json py response = Inr (ms, None))
        \<longleftrightarrow> re_search response = None
            \<or> (\<exists>span. re_search response = Some span
                  \<and> json_loads py span = Inl JSONDecodeError))"
  by (auto simp: extract_json_def split: option.splits sum.splits)

theorem recovery_failure_returns_None_witness:
  "re_search ''no json here'' = None
   \<and> extract_json cautious_python ''no json here'' = Inr ([Msg_no_valid_json_block], None)
   \<and> re_search ''{invalid json}'' = Some ''{invalid json}''
   \<and> json_loads cautious_python ''{invalid json}'' = Inl JSONDecodeError
   \<and> extract_json cautious_python ''{invalid json}'' = Inr ([Msg_still_failed_to_decode], None)"
proof -
  have 1: "re_search ''no json here'' = None" by code_simp
  have 2: "re_search ''{invalid json}'' = Some ''{invalid json}''" by code_simp
  have 3: "json_loads cautious_python ''{invalid json}'' = Inl JSONDecodeError" by code_simp
  show ?thesis
    using recovery_failure_returns_None [of "''no json here''" cautious_python]
      recovery_failure_returns_None [of "''{invalid json}''" cautious_python] 1 2 3
    by simp
qed

text \<open>
  Claim C2, as stated: the evaluator's cleanup and parse gives, for every response text,
  the outcome of \<open>extract_json\<close>. It does not: a verdict wrapped in prose is recovered by
  \<open>extract_json\<close> and is invalid JSON for the evaluator, and the text \<open>[]\<close> parses for
  the evaluator and has no span for \<open>extract_json\<close>.
\<close>

theorem verdict_paths_differ:
  "json_loads cautious_python (cleaned_text prose_wrapped_verdict) = Inl JSONDecodeError
   \<and> extract_json cautious_python prose_wrapped_verdict =
       Inr ([], Some (JObject [(ustr ''overall_status'', JString (ustr ''Pass'')),
                               (ustr ''mismatches'', JArray [])]))
   \<and> json_loads cautious_python (cleaned_text ''[]'') = Inr (JArray [])
   \<and> extract_json cautious_python ''[]'' = Inr ([Msg_no_valid_json_block], None)"
  by code_simp

text \<open>
  Claim C2, amended. The two scripts recover JSON by different cleanups before the same
  strict parse: the evaluator strips white space, one leading \<open>```json\<close> and one trailing
  \<open>```\<close> and parses all that is left; the extractor parses the span from the first \<open>{\<close>
  to the last \<open>}\<close>. Whenever the evaluator's cleanup and parse recovers an object,
  \<open>extract_json\<close> recovers the same object from the same text, provided the interpreter
  that runs the extractor reaches none of its limits on the cleaned text either.
\<close>

theorem verdict_cleanup_refines_extract_json:
  assumes "json_loads py_evaluator (cleaned_text res_text) = Inr (JObject d)"
    and "limit_error py_extractor (cleaned_text res_text) = None"
  shows "extract_json py_extractor res_text = Inr ([], Some (JObject d))"
proof -
  let ?s = "cleaned_text res_text"
  from assms(1) have p: "strict_parse ?s = Some (JObject d)"
    by (simp add: json_loads_Inr)
  from strict_parse_object_core[OF p]
  obtain w1 mid w2 where s: "?s = w1 @ CHR ''{'' # mid @ CHR ''}'' # w2"
    and w1: "list_all json_ws w1" and w2: "list_all json_ws w2"
    by blast
  have ne: "?s \<noteq> []" using s by simp
  have "w1 = []"
  proof (rule ccontr)
    assume "w1 \<noteq> []"
    then have "hd ?s = hd w1" "hd w1 \<in> set w1" using s by simp_all
    with w1 have "py_isspace (hd ?s)" by (simp add: list_all_iff json_ws_isspace)
    with cleaned_text_ends(1)[OF ne] show False by simp
  qed
  moreover have "w2 = []"
  proof (rule ccontr)
    assume "w2 \<noteq> []"
    then have "last ?s = last w2" "last w2 \<in> set w2" using s by simp_all
    with w2 have "py_isspace (last ?s)" by (simp add: list_all_iff json_ws_isspace)
    with cleaned_text_ends(2)[OF ne] show False by simp
  qed
  ultimately have s': "?s = CHR ''{'' # mid @ ''}''" using s by simp
  obtain a b where t: "res_text = a @ ?s @ b" and a: "CHR ''{'' \<notin> set a" and b: "CHR ''}'' \<notin> set b"
    using cleaned_text_decomp[of res_text] by blast
  have "res_text = a @ CHR ''{'' # mid @ CHR ''}'' # b"
    using t s' by simp
  with re_search_span[OF a b, of mid]
  have "re_search res_text = Some ?s" using s' by simp
  moreover have "json_loads py_extractor ?s = Inr (JObject d)"
    using p assms(2) by (simp add: json_loads_Inr)
  ultimately show ?thesis by (simp add: extract_json_def)
qed

lemma fenced_mismatch_verdict_loads:
  "json_loads cautious_python (cleaned_text fenced_mismatch_verdict) =
     Inr (JObject
       [(ustr ''overall_status'', JString (ustr ''Mismatch'')),
        (ustr ''mismatches'',
         JArray (map JObject
           [[(ustr ''field'', JString (ustr ''total'')),
             (ustr ''expected'', JString (ustr ''$100.00'')),
             (ustr ''actual'', JString (ustr ''100.00''))],
            [(ustr ''field'', JString (ustr ''tax''))]]))])"
  by code_simp

theorem verdict_cleanup_refines_extract_json_witness:
  "json_loads cautious_python (cleaned_text fenced_mismatch_verdict) =
     Inr (JObject
       [(ustr ''overall_status'', JString (ustr ''Mismatch'')),
        (ustr ''mismatches'',
         JArray (map JObject
           [[(ustr ''field'', JString (ustr ''total'')),
             (ustr ''expected'', JString (ustr ''$100.00'')),
             (ustr ''actual'', JString (ustr ''100.00''))],
            [(ustr ''field'', JString (ustr ''tax''))]]))])
   \<and> limit_error cautious_python (cleaned_text fenced_mismatch_verdict) = None
   \<and> extract_json cautious_python fenced_mismatch_verdict =
     Inr ([], Some (JObject
       [(ustr ''overall_status'', JString (ustr ''Mismatch'')),
        (ustr ''mismatches'',
         JArray (map JObject
           [[(ustr ''field'', JString (ustr ''total'')),
             (ustr ''expected'', JString (ustr ''$100.00'')),
             (ustr ''actual'', JString (ustr ''100.00''))],
            [(ustr ''field'', JString (ustr ''tax''))]]))]))"
proof -
  have 2: "limit_error cautious_python (cleaned_text fenced_mismatch_verdict) = None"
    by code_simp
  show ?thesis
    using verdict_cleanup_refines_extract_json [OF fenced_mismatch_verdict_loads 2]
      fenced_mismatch_verdict_loads 2
    by simp
qed

lemma invoice_json_parsed:
  "json_loads cautious_python invoice_json =
     Inr (JObject [(ustr ''invoice'', JObject [(ustr ''client_name'', JString (ustr ''Acme''))]),
                   (ustr ''items'', JArray [])])"
  by code_simp

lemma filter_outer_ws:
  assumes "list_all json_ws w1" and "list_all json_ws w2" and "\<And>c. json_ws c \<Longrightarrow> \<not> P c"
  shows "filter P (w1 @ s @ w2) = filter P s"
proof -
  have "filter P w1 = []" "filter P w2 = []"
    using assms by (auto simp: list_all_iff filter_empty_conv)
  then show ?thesis by simp
qed

lemma cautious_python_ignores_outer_ws: "ignores_outer_ws cautious_python"
proof -
  have d: "filter is_digit (w1 @ s @ w2) = filter is_digit s"
    if "list_all json_ws w1" "list_all json_ws w2" for w1 w2 s
    using that by (rule filter_outer_ws) (auto simp: json_ws_def is_digit_def)
  have b: "filter (\<lambda>c. c = CHR ''['' \<or> c = CHR ''{'') (w1 @ s @ w2)
             = filter (\<lambda>c. c = CHR ''['' \<or> c = CHR ''{'') s"
    if "list_all json_ws w1" "list_all json_ws w2" for w1 w2 s
    using that by (rule filter_outer_ws) (auto simp: json_ws_def)
  show ?thesis
    unfolding ignores_outer_ws_def cautious_python_def
    by (simp add: d b del: filter_append)
qed

text \<open>
  Claim C4. For every text \<open>j\<close> that parses to a JSON object, \<open>extract_json\<close> applied to
  \<open>j\<close> between a prefix without \<open>{\<close> and a suffix without \<open>}\<close> (a markdown fence, prose
  without braces) returns the strict parse of \<open>j\<close>: the region it parses is the span from
  the first \<open>{\<close> to the last \<open>}\<close> of the text, which parses as \<open>j\<close> does. The span is
  \<open>j\<close> without the white space around it, which an interpreter's limits do not depend on.
\<close>

theorem fenced_object_recovered:
  assumes "json_loads py j = Inr (JObject d)"
    and "CHR ''{'' \<notin> set pre"
    and "CHR ''}'' \<notin> set post"
    and "ignores_outer_ws py"
  shows "extract_json py (pre @ j @ post) = Inr ([], Some (JObject d))
         \<and> (\<exists>span. re_search (pre @ j @ post) = Some span \<and> json_loads py span = json_loads py j)
         \<and> (\<forall>a mid b. CHR ''{'' \<notin> set a \<and> CHR ''}'' \<notin> set b \<longrightarrow>
               re_search (a @ CHR ''{'' # mid @ CHR ''}'' # b) = Some (CHR ''{'' # mid @ ''}''))"
proof -
  from assms(1) have p: "strict_parse j = Some (JObject d)" and l: "limit_error py j = None"
    by (simp_all add: json_loads_Inr)
  from strict_parse_object_core[OF p]
  obtain w1 mid w2 where j: "j = w1 @ CHR ''{'' # mid @ CHR ''}'' # w2"
    and w1: "list_all json_ws w1" and w2: "list_all json_ws w2"
    and core: "strict_parse (CHR ''{'' # mid @ ''}'') = Some (JObject d)"
    by blast
  let ?core = "CHR ''{'' # mid @ ''}''"
  have "j = w1 @ ?core @ w2" using j by simp
  with assms(4) w1 w2 have "limit_error py ?core = limit_error py j"
    unfolding ignores_outer_ws_def by metis
  with core l have loads: "json_loads py ?core = Inr (JObject d)"
    by (simp add: json_loads_Inr)
  have a: "CHR ''{'' \<notin> set (pre @ w1)"
    using assms(2) w1 brace_not_ws by (auto simp: list_all_iff)
  have b: "CHR ''}'' \<notin> set (w2 @ post)"
    using assms(3) w2 brace_not_ws by (auto simp: list_all_iff)
  have "pre @ j @ post = (pre @ w1) @ CHR ''{'' # mid @ CHR ''}'' # (w2 @ post)"
    using j by simp
  with re_search_span[OF a b, of mid]
  have sp: "re_search (pre @ j @ post) = Some ?core" by simp
  with loads assms(1) show ?thesis
    by (simp add: extract_json_def re_search_span)
qed

theorem fenced_object_recovered_witness:
  "json_loads cautious_python invoice_json =
     Inr (JObject [(ustr ''invoice'', JObject [(ustr ''client_name'', JString (ustr ''Acme''))]),
                   (ustr ''items'', JArray [])])
   \<and> CHR ''{'' \<notin> set ''```json\<newline>''
   \<and> CHR ''}'' \<notin> set ''\<newline>```''
   \<and> extract_json cautious_python (''```json\<newline>'' @ invoice_json @ ''\<newline>```'') =
       Inr ([], Some (JObject [(ustr ''invoice'', JObject [(ustr ''client_name'', JString (ustr ''Acme''))]),
                               (ustr ''items'', JArray [])]))"
proof -
  have 1: "CHR ''{'' \<notin> set ''```json\<newline>''" by simp
  have 2: "CHR ''}'' \<notin> set ''\<newline>```''" by simp
  show ?thesis
    using fenced_object_recovered [OF invoice_json_parsed 1 2 cautious_python_ignores_outer_ws]
      invoice_json_parsed
    by simp
qed

section \<open>The extraction orchestrator\<close>

lemma ask_model_files:
  "ask_model env p ext mime d st = (r, st') \<Longrightarrow>
     sorted_invoices st' = sorted_invoices st \<and> gemini_output st' = gemini_output st
     \<and> error_invoices st' = error_invoices st"
  by (auto simp: ask_model_def print_def Let_def split: option.splits prod.splits sum.splits)

lemma extract_invoice_files:
  "extract_invoice env p st = Inr (r, st') \<Longrightarrow>
     sorted_invoices st' = sorted_invoices st \<and> gemini_output st' = gemini_output st
     \<and> error_invoices st' = error_invoices st"
  by (auto simp: extract_invoice_def convert_xlsx_to_csv_def print_def Let_def
      dest!: ask_model_files split: option.splits prod.splits if_splits file_obj.splits)

lemma extract_invoice_returns:
  assumes "sorted_invoices st p = Some f"
    and "f \<noteq> Unreadable \<or> lower (snd (splitext p)) = ''.xlsx''"
  shows "\<exists>r st'. extract_invoice env p st = Inr (r, st')"
  using assms
  by (cases f) (auto simp: extract_invoice_def Let_def split: option.splits prod.splits)

lemma ask_model_requests:
  "ask_model env p ext mime d st = (r, st') \<Longrightarrow>
     requests st' = requests st @ [\<lparr>prompt = final_prompt ext, mime_type = mime, data = d\<rparr>]"
  by (auto simp: ask_model_def print_def Let_def split: option.splits prod.splits sum.splits)

lemma inv1_path:
  "path_join ''sorted_invoices/Acme'' ''inv1.pdf'' = ''sorted_invoices/Acme/inv1.pdf''"
  by (simp add: path_join_def startswith_def endswith_def)

lemma inv1_ext: "lower (snd (splitext ''sorted_invoices/Acme/inv1.pdf'')) = ''.pdf''"
  by code_simp

lemma inv1_base: "fst (splitext ''inv1.pdf'') = ''inv1''"
  by code_simp

lemma extract_json_invoice_json:
  "extract_json cautious_python invoice_json =
     Inr ([], Some (JObject [(ustr ''invoice'', JObject [(ustr ''client_name'', JString (ustr ''Acme''))]),
                             (ustr ''items'', JArray [])]))"
  by code_simp

lemma extract_json_empty_object:
  "extract_json (extractor_python (responding ''{}'')) ''{}'' = Inr ([], Some (JObject []))"
  by code_simp

lemma one_invoice_readable:
  "sorted_invoices one_invoice (path_join ''sorted_invoices/Acme'' ''inv1.pdf'') =
     Some (Readable ''%PDF-1.4'')"
  by (simp add: one_invoice_def inv1_path)

text \<open>
  An entry that \<open>open\<close> cannot read and that is not a spreadsheet ends the run: the
  exception leaves \<open>extract_invoice\<close>, which opens the file outside its \<open>try\<close>.
\<close>

lemma unreadable_file_raises:
  assumes "sorted_invoices st (path_join folder_path file) = Some Unreadable"
    and "lower (snd (splitext (path_join folder_path file))) \<noteq> ''.xlsx''"
  shows "process_file env folder_path file st = Inl OSError"
  using assms by (simp add: process_file_def extract_invoice_def print_def Let_def)

text \<open>
  Every other file of the batch gets exactly one of the two dispositions, when
  \<open>json.dump\<close> writes the recovered object: a file that can be read, and a spreadsheet,
  which is read inside a \<open>try\<close>.
\<close>

lemma readable_file_one_disposition:
  assumes "sorted_invoices st (path_join folder_path file) = Some f"
    and "f \<noteq> Unreadable \<or> lower (snd (splitext (path_join folder_path file))) = ''.xlsx''"
    and "\<And>obj. dump_error (extractor_python env) obj = None"
  shows "\<exists>st'. process_file env folder_path file st = Inr st'
           \<and> (output_written file st st' \<or> moved_to_error folder_path file st st')
           \<and> \<not> (output_written file st st' \<and> moved_to_error folder_path file st st')"
proof -
  let ?p = "path_join folder_path file"
  let ?st1 = "print [Msg_extracting_from file] st"
  have s1: "sorted_invoices ?st1 ?p = Some f"
    using assms(1) by (simp add: print_def)
  from extract_invoice_returns[OF s1 assms(2)]
  obtain r st2 where ex: "extract_invoice env ?p ?st1 = Inr (r, st2)" by blast
  from extract_invoice_files[OF ex]
  have same: "sorted_invoices st2 = sorted_invoices st" "gemini_output st2 = gemini_output st"
    "error_invoices st2 = error_invoices st"
    by (simp_all add: print_def)
  have excl: "\<not> (output_written file st st' \<and> moved_to_error folder_path file st st')" for st'
    using assms(1) by (auto simp: output_written_def moved_to_error_def dest: fun_cong[where x = ?p])
  show ?thesis
  proof (cases "truthy r")
    case True
    then obtain obj where r: "r = Some obj" by (auto simp: truthy_def split: option.splits)
    let ?st' = "print [Msg_saved_json (fst (splitext file) @ ''.json'')]
       (st2\<lparr>gemini_output := (gemini_output st2)
          (path_join ''gemini_output'' (fst (splitext file) @ ''.json'') := r)\<rparr>)"
    have "process_file env folder_path file st = Inr ?st'"
      using ex True assms(3) by (simp add: process_file_def Let_def)
    moreover have "output_written file st ?st'"
      using same r by (auto simp: output_written_def print_def)
    ultimately show ?thesis using excl by blast
  next
    case False
    let ?st' = "(print [Msg_extraction_failed file] st2)
        \<lparr>sorted_invoices := (sorted_invoices st)(?p := None),
          error_invoices := (error_invoices st)(path_join ''error_invoices'' file \<mapsto> f)\<rparr>"
    have "process_file env folder_path file st = Inr ?st'"
      using ex False same assms(1)
      by (simp add: process_file_def Let_def shutil_move_def print_def)
    moreover have "moved_to_error folder_path file st ?st'"
      using same assms(1) by (auto simp: moved_to_error_def print_def)
    ultimately show ?thesis using excl by blast
  qed
qed

text \<open>
  Claim C3 says that every file of the batch ends with exactly one of two dispositions:
  its JSON output is written, or it is moved to \<open>error_invoices\<close>. The script attempts
  this, with the \<open>else\<close> branch of line 139 for every failure, and misses one case: a
  file that \<open>open\<close> cannot read (here an invoice without read permission). Line 98
  raises outside the \<open>try\<close> of line 105, the exception leaves \<open>extract_invoice\<close> and
  \<open>run_extractor\<close>, the file is neither written nor moved, and the rest of the batch is
  not processed.
\<close>

theorem unreadable_invoice_ends_run:
  "sorted_invoices locked_invoice (path_join ''sorted_invoices/Acme'' ''inv1.pdf'') = Some Unreadable
   \<and> process_file (responding invoice_json) ''sorted_invoices/Acme'' ''inv1.pdf'' locked_invoice
       = Inl OSError
   \<and> run_extractor (responding invoice_json) locked_invoice = Inl OSError"
proof -
  have 1: "sorted_invoices locked_invoice (path_join ''sorted_invoices/Acme'' ''inv1.pdf'')
             = Some Unreadable"
    by (simp add: locked_invoice_def inv1_path)
  have 2: "lower (snd (splitext (path_join ''sorted_invoices/Acme'' ''inv1.pdf''))) \<noteq> ''.xlsx''"
    by (simp add: inv1_path inv1_ext)
  have 3: "process_file (responding invoice_json) ''sorted_invoices/Acme'' ''inv1.pdf''
             locked_invoice = Inl OSError"
    using unreadable_file_raises[OF 1 2] .
  have "path_join ''sorted_invoices'' ''Acme'' = ''sorted_invoices/Acme''"
    by (simp add: path_join_def startswith_def endswith_def)
  then have "run_extractor (responding invoice_json) locked_invoice = Inl OSError"
    using 3 by (simp add: run_extractor_def responding_def Let_def)
  with 1 3 show ?thesis by simp
qed

text \<open>
  Claim C9. Whenever \<open>extract_invoice\<close> calls the model, the prompt it sends is a function
  of the file extension alone: the hint of \<open>FILE_HINTS\<close> for the lower-cased extension
  (the CSV hint for a spreadsheet, which is sent as CSV; the sentence for an invoice
  document when the extension is not in the table), followed by an empty line and the
  fixed \<open>BASE_PROMPT\<close>. At most one request is sent per file.
\<close>

theorem prompt_from_extension:
  assumes "extract_invoice env file_path st = Inr (r, st')"
  shows "\<exists>sent. requests st' = requests st @ sent \<and> length sent \<le> 1 \<and>
           (\<forall>req \<in> set sent.
              prompt req =
                (let ext = lower (snd (splitext file_path));
                     ext = (if ext = ''.xlsx'' then ''.csv'' else ext)
                 in (case map_of FILE_HINTS ext of
                       Some hint \<Rightarrow> hint
                     | None \<Rightarrow> ''The following file is an invoice document.'')
                    @ ''\<newline>\<newline>'' @ BASE_PROMPT))"
  using assms
  by (auto simp: extract_invoice_def convert_xlsx_to_csv_def print_def Let_def
      final_prompt_def format_hint_def dict_get_def
      dest!: ask_model_requests split: option.splits prod.splits if_splits file_obj.splits)

lemma extract_invoice_inv1:
  "extract_invoice (responding invoice_json) ''sorted_invoices/Acme/inv1.pdf'' one_invoice =
     Inr (Some (JObject [(ustr ''invoice'', JObject [(ustr ''client_name'', JString (ustr ''Acme''))]),
                         (ustr ''items'', JArray [])]),
          one_invoice\<lparr>requests :=
            [\<lparr>prompt = final_prompt ''.pdf'', mime_type = Some ''application/pdf'',
              data = Bytes ''%PDF-1.4''\<rparr>]\<rparr>)"
  by (simp add: extract_invoice_def inv1_ext one_invoice_def responding_def ask_model_def
      extract_json_invoice_json print_def Let_def)

theorem prompt_from_extension_witness:
  "extract_invoice (responding invoice_json) ''sorted_invoices/Acme/inv1.pdf'' one_invoice =
     Inr (Some (JObject [(ustr ''invoice'', JObject [(ustr ''client_name'', JString (ustr ''Acme''))]),
                         (ustr ''items'', JArray [])]),
          one_invoice\<lparr>requests :=
            [\<lparr>prompt = final_prompt ''.pdf'', mime_type = Some ''application/pdf'',
              data = Bytes ''%PDF-1.4''\<rparr>]\<rparr>)
   \<and> final_prompt ''.pdf'' =
       ''The following file is an invoice in PDF format.'' @ ''\<newline>\<newline>'' @ BASE_PROMPT"
  using prompt_from_extension [OF extract_invoice_inv1] extract_invoice_inv1
  by (simp add: inv1_ext one_invoice_def FILE_HINTS_def final_prompt_def format_hint_def
      dict_get_def)

text \<open>
  Claim C10. When the response of the model for a file is recovered as the empty object
  \<open>{}\<close>, the orchestrator treats the file as failed, because it tests the truth value of
  the recovered object: it prints that the extraction failed, moves the file to
  \<open>error_invoices\<close> and writes no output. The request is the one \<open>extract_invoice\<close>
  sends for the file: the bytes of a file that is not a spreadsheet, the CSV text of a
  spreadsheet.
\<close>

theorem empty_object_is_failure:
  assumes "sorted_invoices st (path_join folder_path file) = Some f"
    and "ext = lower (snd (splitext (path_join folder_path file)))"
    and "(ext \<noteq> ''.xlsx'' \<and> f = Readable b
            \<and> req = \<lparr>prompt = final_prompt ext,
                      mime_type = guess_type env (path_join folder_path file),
                      data = Bytes b\<rparr>)
         \<or> (ext = ''.xlsx'' \<and> read_excel_to_csv env (Some f) = Some csv \<and> csv \<noteq> []
            \<and> req = \<lparr>prompt = final_prompt ''.csv'', mime_type = Some ''text/csv'',
                      data = Utf8 csv\<rparr>)"
    and "generate_content env (path_join folder_path file) req = Some response"
    and "extract_json (extractor_python env) response = Inr ([], Some (JObject []))"
  shows "\<exists>st'. process_file env folder_path file st = Inr st'
           \<and> gemini_output st' = gemini_output st
           \<and> sorted_invoices st' = (sorted_invoices st)(path_join folder_path file := None)
           \<and> error_invoices st' = (error_invoices st)(path_join ''error_invoices'' file \<mapsto> f)
           \<and> stdout st' = stdout st @ [Msg_extracting_from file, Msg_extraction_failed file]"
  using assms
  by (auto simp: process_file_def extract_invoice_def convert_xlsx_to_csv_def ask_model_def
      Let_def print_def truthy_def shutil_move_def)

theorem empty_object_is_failure_witness:
  "extract_json (extractor_python (responding ''{}'')) ''{}'' = Inr ([], Some (JObject []))
   \<and> (\<exists>st'. process_file (responding ''{}'') ''sorted_invoices/Acme'' ''inv1.pdf'' one_invoice
              = Inr st'
          \<and> gemini_output st' = Map.empty
          \<and> sorted_invoices st' ''sorted_invoices/Acme/inv1.pdf'' = None
          \<and> error_invoices st' ''error_invoices/inv1.pdf'' = Some (Readable ''%PDF-1.4'')
          \<and> stdout st' = [Msg_extracting_from ''inv1.pdf'', Msg_extraction_failed ''inv1.pdf''])"
proof -
  let ?p = "path_join ''sorted_invoices/Acme'' ''inv1.pdf''"
  let ?req = "\<lparr>prompt = final_prompt ''.pdf'',
               mime_type = guess_type (responding ''{}'') ?p,
               data = Bytes ''%PDF-1.4''\<rparr>"
  have 2: "''.pdf'' = lower (snd (splitext ?p))"
    by (simp add: inv1_path inv1_ext)
  have 3: "(''.pdf'' \<noteq> ''.xlsx'' \<and> Readable ''%PDF-1.4'' = Readable ''%PDF-1.4'' \<and> ?req = ?req)
           \<or> (''.pdf'' = ''.xlsx'' \<and> read_excel_to_csv (responding ''{}'')
                  (Some (Readable ''%PDF-1.4'')) = Some [] \<and> [] \<noteq> ([] :: string)
               \<and> ?req = \<lparr>prompt = final_prompt ''.csv'', mime_type = Some ''text/csv'',
                          data = Utf8 []\<rparr>)"
    by simp
  have 4: "generate_content (responding ''{}'') ?p ?req = Some ''{}''"
    by (simp add: responding_def)
  show ?thesis
    using empty_object_is_failure [OF one_invoice_readable 2 3 4 extract_json_empty_object]
      extract_json_empty_object
    by (auto simp: one_invoice_def path_join_def startswith_def endswith_def)
qed

end
